theory Spec2Isabelle
  imports Main "HOL-Library.Word"
begin

section \<open>The world and the neighbour resolver\<close>

text \<open>
  Coordinates are Go \<^verbatim>\<open>int64\<close> values: 64-bit words whose \<open>+\<close> and \<open>-\<close> wrap
  around, compared through their signed reading \<open>sint\<close>. The alive marks and the
  neighbour counts are Go \<^verbatim>\<open>int\<close>; the program only ever stores 0 and 1 and a
  count is a sum of at most eight marks, so they are modelled as \<open>int\<close>.
\<close>

type_synonym int64 = "64 word"

text \<open>
  The process-wide globals \<^verbatim>\<open>worldMinX\<close>, \<^verbatim>\<open>worldMaxX\<close>, \<^verbatim>\<open>worldMinY\<close>,
  \<^verbatim>\<open>worldMaxY\<close> and \<^verbatim>\<open>flagWraparound\<close> of \<^verbatim>\<open>main.go\<close> (named
  \<^verbatim>\<open>appWorldMinX\<close>, ..., \<^verbatim>\<open>appWraparound\<close> in the configuration-file variant of the
  program, whose listing follows the README) are passed explicitly as one record. Its
  field \<open>wraparound\<close> stands for \<^verbatim>\<open>flagWraparound\<close>, respectively \<^verbatim>\<open>appWraparound\<close>.
  The functions of the two variants from \<^verbatim>\<open>seedLife\<close> to \<^verbatim>\<open>getSortedCoordYs\<close> are
  the same text up to these names and the wording of the messages, and are modelled
  once.
\<close>

record world =
  worldMinX :: int64
  worldMaxX :: int64
  worldMinY :: int64
  worldMaxY :: int64
  wraparound :: bool

text \<open>
  \<^verbatim>\<open>getNeighborsX\<close>: the result is (left, right, leftExists, rightExists). A
  neighbour that does not exist is returned as the zero value of its declaration.
\<close>

definition getNeighborsX :: "world \<Rightarrow> int64 \<Rightarrow> int64 \<times> int64 \<times> bool \<times> bool" where
  "getNeighborsX w coordX =
     (let (coordXLeft, coordXLeftExists) =
            (if coordX = worldMinX w
             then (if wraparound w then (worldMaxX w, True) else (0, False))
             else (coordX - 1, True));
          (coordXRight, coordXRightExists) =
            (if coordX = worldMaxX w
             then (if wraparound w then (worldMinX w, True) else (0, False))
             else (coordX + 1, True))
      in (coordXLeft, coordXRight, coordXLeftExists, coordXRightExists))"

definition getNeighborsY :: "world \<Rightarrow> int64 \<Rightarrow> int64 \<times> int64 \<times> bool \<times> bool" where
  "getNeighborsY w coordY =
     (let (coordYBottom, coordYBottomExists) =
            (if coordY = worldMinY w
             then (if wraparound w then (worldMaxY w, True) else (0, False))
             else (coordY - 1, True));
          (coordYTop, coordYTopExists) =
            (if coordY = worldMaxY w
             then (if wraparound w then (worldMinY w, True) else (0, False))
             else (coordY + 1, True))
      in (coordYBottom, coordYTop, coordYBottomExists, coordYTopExists))"

section \<open>The organisms map\<close>

text \<open>
  \<^verbatim>\<open>map[int64]map[int64]int\<close>: indexed by the x-coordinate, then the y-coordinate.
\<close>

type_synonym organisms = "int64 \<rightharpoonup> (int64 \<rightharpoonup> int)"

text \<open>\<^verbatim>\<open>hasLife\<close>: the stored mark, 0 where either level has no entry.\<close>

definition hasLife :: "organisms \<Rightarrow> int64 \<Rightarrow> int64 \<Rightarrow> int" where
  "hasLife organisms coordX coordY =
     (case organisms coordX of
        Some coordYs \<Rightarrow> (case coordYs coordY of Some v \<Rightarrow> v | None \<Rightarrow> 0)
      | None \<Rightarrow> 0)"

text \<open>
  The neighbour count of the tick loop (\<^verbatim>\<open>main.go\<close>, lines 67 to 99), with the
  results of \<^verbatim>\<open>getNeighborsX\<close> and \<^verbatim>\<open>getNeighborsY\<close> passed in as the loop has them.
\<close>

definition neighborsAlive ::
  "organisms \<Rightarrow> int64 \<times> int64 \<times> bool \<times> bool \<Rightarrow> int64 \<times> int64 \<times> bool \<times> bool
     \<Rightarrow> int64 \<Rightarrow> int64 \<Rightarrow> int" where
  "neighborsAlive organisms nx ny coordX coordY =
     (case nx of (coordXLeft, coordXRight, coordXLeftExists, coordXRightExists) \<Rightarrow>
      case ny of (coordYBottom, coordYTop, coordYBottomExists, coordYTopExists) \<Rightarrow>
        (if coordXLeftExists
         then hasLife organisms coordXLeft coordY
            + (if coordYBottomExists then hasLife organisms coordXLeft coordYBottom else 0)
            + (if coordYTopExists then hasLife organisms coordXLeft coordYTop else 0)
         else 0)
      + (if coordXRightExists
         then hasLife organisms coordXRight coordY
            + (if coordYBottomExists then hasLife organisms coordXRight coordYBottom else 0)
            + (if coordYTopExists then hasLife organisms coordXRight coordYTop else 0)
         else 0)
      + (if coordYBottomExists then hasLife organisms coordX coordYBottom else 0)
      + (if coordYTopExists then hasLife organisms coordX coordYTop else 0))"

text \<open>
  The coordinates that the count above passes to \<^verbatim>\<open>hasLife\<close>, in the order of the
  calls: the candidate neighbours of a cell.
\<close>

definition neighborCoords :: "world \<Rightarrow> int64 \<Rightarrow> int64 \<Rightarrow> (int64 \<times> int64) list" where
  "neighborCoords w coordX coordY =
     (case getNeighborsX w coordX of
        (coordXLeft, coordXRight, coordXLeftExists, coordXRightExists) \<Rightarrow>
      case getNeighborsY w coordY of
        (coordYBottom, coordYTop, coordYBottomExists, coordYTopExists) \<Rightarrow>
        (if coordXLeftExists
         then [(coordXLeft, coordY)]
            @ (if coordYBottomExists then [(coordXLeft, coordYBottom)] else [])
            @ (if coordYTopExists then [(coordXLeft, coordYTop)] else [])
         else [])
      @ (if coordXRightExists
         then [(coordXRight, coordY)]
            @ (if coordYBottomExists then [(coordXRight, coordYBottom)] else [])
            @ (if coordYTopExists then [(coordXRight, coordYTop)] else [])
         else [])
      @ (if coordYBottomExists then [(coordX, coordYBottom)] else [])
      @ (if coordYTopExists then [(coordX, coordYTop)] else []))"

text \<open>
  Reading \<^verbatim>\<open>organisms[x]\<close> gives the row stored under \<open>x\<close>, or the nil map (which
  reads as empty) where there is none; \<open>cell\<close> is the two-level lookup
  \<^verbatim>\<open>v, ok := organisms[x][y]\<close>. \<open>setCell\<close> is the assignment
  \<^verbatim>\<open>organisms[x][y] = v\<close>. Each row is made by \<^verbatim>\<open>make\<close> for one key of one outer
  map and is never stored under a second key, so writing through a row changes that
  one row only.
\<close>

definition rowOf :: "organisms \<Rightarrow> int64 \<Rightarrow> (int64 \<rightharpoonup> int)" where
  "rowOf organisms coordX = (case organisms coordX of Some coordYs \<Rightarrow> coordYs | None \<Rightarrow> Map.empty)"

definition cell :: "organisms \<Rightarrow> int64 \<Rightarrow> int64 \<Rightarrow> int option" where
  "cell organisms coordX coordY = rowOf organisms coordX coordY"

definition setCell :: "organisms \<Rightarrow> int64 \<Rightarrow> int64 \<Rightarrow> int \<Rightarrow> organisms" where
  "setCell organisms coordX coordY v = organisms(coordX \<mapsto> (rowOf organisms coordX)(coordY \<mapsto> v))"

text \<open>
  The nested loop of \<^verbatim>\<open>addOrganism\<close> (lines 384 to 394): \<open>stubYs\<close> is the inner
  loop over \<^verbatim>\<open>coordYs\<close>, which writes a 0 where the row has no entry; \<open>stubXs\<close> is
  the outer loop over \<^verbatim>\<open>coordXs\<close>, which first makes the row where there is none.
\<close>

fun stubYs :: "organisms \<Rightarrow> int64 \<Rightarrow> int64 list \<Rightarrow> organisms" where
  "stubYs organisms tempCoordX [] = organisms"
| "stubYs organisms tempCoordX (tempCoordY # coordYs) =
     stubYs (if cell organisms tempCoordX tempCoordY = None
             then setCell organisms tempCoordX tempCoordY 0
             else organisms)
            tempCoordX coordYs"

fun stubXs :: "organisms \<Rightarrow> int64 list \<Rightarrow> int64 list \<Rightarrow> organisms" where
  "stubXs organisms [] coordYs = organisms"
| "stubXs organisms (tempCoordX # coordXs) coordYs =
     stubXs (stubYs (if organisms tempCoordX = None
                     then organisms(tempCoordX \<mapsto> Map.empty)
                     else organisms)
                    tempCoordX coordYs)
            coordXs coordYs"

text \<open>
  \<^verbatim>\<open>addOrganism\<close>: the two slices \<^verbatim>\<open>coordXs\<close> and \<^verbatim>\<open>coordYs\<close>, the nested loop and
  the final assignment of 1.
\<close>

definition addOrganism :: "world \<Rightarrow> organisms \<Rightarrow> int64 \<Rightarrow> int64 \<Rightarrow> organisms" where
  "addOrganism w organisms coordX coordY =
     (case getNeighborsX w coordX of
        (coordXLeft, coordXRight, coordXLeftExists, coordXRightExists) \<Rightarrow>
      case getNeighborsY w coordY of
        (coordYBottom, coordYTop, coordYBottomExists, coordYTopExists) \<Rightarrow>
        let coordXs = [coordX] @ (if coordXLeftExists then [coordXLeft] else [])
                               @ (if coordXRightExists then [coordXRight] else []);
            coordYs = [coordY] @ (if coordYBottomExists then [coordYBottom] else [])
                               @ (if coordYTopExists then [coordYTop] else [])
        in setCell (stubXs organisms coordXs coordYs) coordX coordY 1)"

section \<open>The tick engine\<close>

text \<open>
  Go leaves the order of \<^verbatim>\<open>range\<close> over a map open. A run of the nested loops
  \<^verbatim>\<open>for coordX, coordYs := range organisms\<close> and \<^verbatim>\<open>for coordY, alive := range coordYs\<close>
  is given by the key and value pairs in the order the runtime yields them; every
  property below is proved for each order that \<open>rangesOver\<close> admits.
\<close>

type_synonym ranged = "(int64 \<times> (int64 \<times> int) list) list"

definition rangesOver :: "organisms \<Rightarrow> ranged \<Rightarrow> bool" where
  "rangesOver organisms ord \<longleftrightarrow>
     distinct (map fst ord) \<and>
     (\<forall>(coordX, coordYs) \<in> set ord. distinct (map fst coordYs)) \<and>
     organisms = map_of (map (\<lambda>(coordX, coordYs). (coordX, map_of coordYs)) ord)"

text \<open>
  One pass of the loop of \<^verbatim>\<open>main\<close> in \<^verbatim>\<open>main.go\<close> (lines 59 to 112): the next
  generation is built in a fresh map from the current one.
\<close>

definition mainTick :: "world \<Rightarrow> organisms \<Rightarrow> ranged \<Rightarrow> organisms" where
  "mainTick w organisms ord =
     fold (\<lambda>(coordX, coordYs) organismsNext.
             let nx = getNeighborsX w coordX in
             fold (\<lambda>(coordY, alive) organismsNext.
                     let neighbors = neighborsAlive organisms nx (getNeighborsY w coordY) coordX coordY
                     in if 2 \<le> neighbors \<and> neighbors \<le> 3
                        then (if alive = 1 \<or> neighbors = 3
                              then addOrganism w organismsNext coordX coordY
                              else organismsNext)
                        else organismsNext)
                  coordYs organismsNext)
          ord Map.empty"

text \<open>
  The configuration-file variant of the program (its \<^verbatim>\<open>main\<close>, lines 157 to 231 of
  the second listing) differs in the decision only: the count is looked up in
  \<^verbatim>\<open>appExistingLifeRemain\<close> for a live cell and in \<^verbatim>\<open>appNewLifeSpawn\<close> otherwise.
  \<open>neighborsCheck\<close> is its search loop with \<^verbatim>\<open>break\<close>.
\<close>

fun neighborsCheck :: "int \<Rightarrow> int list \<Rightarrow> bool" where
  "neighborsCheck n [] = False"
| "neighborsCheck n (neighbors # rest) =
     (if n = neighbors then True else neighborsCheck n rest)"

definition appTick :: "world \<Rightarrow> int list \<Rightarrow> int list \<Rightarrow> organisms \<Rightarrow> ranged \<Rightarrow> organisms" where
  "appTick w appNewLifeSpawn appExistingLifeRemain organisms ord =
     fold (\<lambda>(coordX, coordYs) organismsNext.
             let nx = getNeighborsX w coordX in
             fold (\<lambda>(coordY, alive) organismsNext.
                     let neighbors = neighborsAlive organisms nx (getNeighborsY w coordY) coordX coordY;
                         add = neighborsCheck neighbors
                                 (if alive = 1 then appExistingLifeRemain else appNewLifeSpawn)
                     in if add then addOrganism w organismsNext coordX coordY else organismsNext)
                  coordYs organismsNext)
          ord Map.empty"

section \<open>Library functions\<close>

text \<open>
  The functions of the Go standard library that the program calls on strings, modelled
  from their documentation. Strings are byte sequences. \<open>stringsSplit\<close> is
  \<^verbatim>\<open>strings.Split\<close> for a separator of one byte, which is all the program uses.
\<close>

fun stringsSplit :: "string \<Rightarrow> char \<Rightarrow> string list" where
  "stringsSplit [] sep = [[]]"
| "stringsSplit (c # cs) sep =
     (if c = sep then [] # stringsSplit cs sep
      else (case stringsSplit cs sep of
              part # parts \<Rightarrow> (c # part) # parts
            | [] \<Rightarrow> [[c]]))"

text \<open>
  \<^verbatim>\<open>strings.TrimSpace\<close> removes the leading and the trailing white space that
  \<^verbatim>\<open>unicode.IsSpace\<close> accepts: the six ASCII bytes of \<open>isSpace\<close>, and the code points
  U+0085, U+00A0, U+1680, U+2000 to U+200A, U+2028, U+2029, U+202F, U+205F and U+3000
  in their UTF-8 encoding of two or three bytes (\<open>isSpace2\<close>, \<open>isSpace3\<close>). A byte
  that does not start such an encoding ends the trimming, as a rune that is no space
  or an invalid encoding does in Go. \<open>trimLeft\<close> reads from the front;
  \<open>trimRightRev\<close> reads the reversed string, as \<^verbatim>\<open>utf8.DecodeLastRuneInString\<close> reads
  from the end.
\<close>

definition isSpace :: "char \<Rightarrow> bool" where
  "isSpace c \<longleftrightarrow> c \<in> set [CHR 0x09, CHR 0x0A, CHR 0x0B, CHR 0x0C, CHR 0x0D, CHR 0x20]"

definition isSpace2 :: "char \<Rightarrow> char \<Rightarrow> bool" where
  "isSpace2 c d \<longleftrightarrow> c = CHR 0xC2 \<and> (d = CHR 0x85 \<or> d = CHR 0xA0)"

definition isSpace3 :: "char \<Rightarrow> char \<Rightarrow> char \<Rightarrow> bool" where
  "isSpace3 c d e \<longleftrightarrow>
     (c = CHR 0xE1 \<and> d = CHR 0x9A \<and> e = CHR 0x80) \<or>
     (c = CHR 0xE2 \<and> d = CHR 0x80 \<and>
        e \<in> set [CHR 0x80, CHR 0x81, CHR 0x82, CHR 0x83, CHR 0x84, CHR 0x85, CHR 0x86, CHR 0x87,
                 CHR 0x88, CHR 0x89, CHR 0x8A, CHR 0xA8, CHR 0xA9, CHR 0xAF]) \<or>
     (c = CHR 0xE2 \<and> d = CHR 0x81 \<and> e = CHR 0x9F) \<or>
     (c = CHR 0xE3 \<and> d = CHR 0x80 \<and> e = CHR 0x80)"

fun trimLeft :: "string \<Rightarrow> string" where
  "trimLeft [] = []"
| "trimLeft [c] = (if isSpace c then [] else [c])"
| "trimLeft [c, d] =
     (if isSpace c then trimLeft [d]
      else if isSpace2 c d then []
      else [c, d])"
| "trimLeft (c # d # e # s) =
     (if isSpace c then trimLeft (d # e # s)
      else if isSpace2 c d then trimLeft (e # s)
      else if isSpace3 c d e then trimLeft s
      else c # d # e # s)"

fun trimRightRev :: "string \<Rightarrow> string" where
  "trimRightRev [] = []"
| "trimRightRev [e] = (if isSpace e then [] else [e])"
| "trimRightRev [e, d] =
     (if isSpace e then trimRightRev [d]
      else if isSpace2 d e then []
      else [e, d])"
| "trimRightRev (e # d # c # s) =
     (if isSpace e then trimRightRev (d # c # s)
      else if isSpace2 d e then trimRightRev (c # s)
      else if isSpace3 c d e then trimRightRev s
      else e # d # c # s)"

definition stringsTrimSpace :: "string \<Rightarrow> string" where
  "stringsTrimSpace s = rev (trimRightRev (rev (trimLeft s)))"

text \<open>
  \<^verbatim>\<open>strconv.ParseInt(s, 10, 64)\<close>: an optional sign, then one or more decimal digits,
  and a value within the range of \<^verbatim>\<open>int64\<close>. \<open>None\<close> stands for a non-nil error.
\<close>

definition digitValue :: "char \<Rightarrow> nat option" where
  "digitValue c = (if c \<in> set ''0123456789'' then Some (of_char c - 48) else None)"

fun parseUint :: "nat \<Rightarrow> string \<Rightarrow> nat option" where
  "parseUint acc [] = Some acc"
| "parseUint acc (c # cs) =
     (case digitValue c of None \<Rightarrow> None | Some d \<Rightarrow> parseUint (acc * 10 + d) cs)"

definition strconvParseInt :: "string \<Rightarrow> int64 option" where
  "strconvParseInt s =
     (case s of
        [] \<Rightarrow> None
      | c # cs \<Rightarrow>
          let neg = (c = CHR ''-'');
              digits = (if c = CHR ''+'' \<or> c = CHR ''-'' then cs else s)
          in if digits = [] then None
             else (case parseUint 0 digits of
                     None \<Rightarrow> None
                   | Some un \<Rightarrow>
                       if \<not> neg \<and> 2 ^ 63 \<le> un then None
                       else if neg \<and> 2 ^ 63 < un then None
                       else Some (if neg then - word_of_nat un else word_of_nat un)))"

text \<open>\<^verbatim>\<open>strconv.Atoi\<close>, with \<^verbatim>\<open>int\<close> of 64 bits.\<close>

definition strconvAtoi :: "string \<Rightarrow> int option" where
  "strconvAtoi s = map_option sint (strconvParseInt s)"

text \<open>The verb \<^verbatim>\<open>%d\<close> of \<^verbatim>\<open>fmt\<close> on an \<^verbatim>\<open>int64\<close>.\<close>

fun decimal :: "nat \<Rightarrow> string" where
  "decimal n =
     (if n < 10 then [''0123456789'' ! n]
      else decimal (n div 10) @ [''0123456789'' ! (n mod 10)])"

declare decimal.simps [simp del]

definition formatInt64 :: "int64 \<Rightarrow> string" where
  "formatInt64 x = (if sint x < 0 then CHR ''-'' # decimal (nat (- sint x)) else decimal (nat (sint x)))"

text \<open>
  A \<^verbatim>\<open>bufio.Scanner\<close> with its default split function \<^verbatim>\<open>ScanLines\<close> and its default
  buffer. \<open>rawLines\<close> is the text between line feeds; the empty rest after the last
  line feed is no line. A line of \<^verbatim>\<open>MaxScanTokenSize\<close> (65536) bytes or more does not
  fit the buffer: \<^verbatim>\<open>Scan\<close> then returns false and \<^verbatim>\<open>Err\<close> returns \<^verbatim>\<open>ErrTooLong\<close>.
  \<open>scanLines\<close> is the list of the tokens for which \<^verbatim>\<open>Scan\<close> returns true, each without
  a trailing carriage return, and \<open>scannerErr\<close> says whether \<^verbatim>\<open>Err\<close> is not nil after
  them. Read errors of the file are left out.
\<close>

definition dropCR :: "string \<Rightarrow> string" where
  "dropCR data = (if data \<noteq> [] \<and> last data = CHR 0x0D then butlast data else data)"

definition rawLines :: "string \<Rightarrow> string list" where
  "rawLines input =
     (let parts = stringsSplit input (CHR 0x0A)
      in if last parts = [] then butlast parts else parts)"

definition scanLines :: "string \<Rightarrow> string list" where
  "scanLines input = map dropCR (takeWhile (\<lambda>raw. length raw < 65536) (rawLines input))"

definition scannerErr :: "string \<Rightarrow> bool" where
  "scannerErr input \<longleftrightarrow> list_ex (\<lambda>raw. 65536 \<le> length raw) (rawLines input)"

section \<open>Failures\<close>

text \<open>
  The program ends a run early by \<^verbatim>\<open>log.Fatal\<close> or \<^verbatim>\<open>log.Fatalf\<close> with a message
  (one constructor for each call, with the values that the message prints), by
  \<^verbatim>\<open>os.Exit(0)\<close> after the help text, or by a run-time panic of Go.
\<close>

datatype failure =
    HelpShown
  | FatalTicks nat
  | FatalDimensions nat
  | FatalDirectionsX nat
  | FatalDirectionsY nat
  | FatalWorldMinX string
  | FatalWorldMaxX string
  | FatalWorldMinY string
  | FatalWorldMaxY string
  | FatalNewLifeSpawn string
  | FatalExistingLifeRemain string
  | FatalNeighbor int
  | FatalWorldX int64 int64
  | FatalWorldY int64 int64
  | FatalLeftParen char
  | FatalRightParen char
  | FatalParseX string
  | FatalParseY string
  | FatalBelowMinX int64 int64
  | FatalAboveMaxX int64 int64
  | FatalBelowMinY int64 int64
  | FatalAboveMaxY int64 int64
  | FatalReadInput
  | PanicIndexOutOfRange nat nat
  | PanicSliceBounds

fun isFatal :: "failure \<Rightarrow> bool" where
  "isFatal HelpShown = False"
| "isFatal (PanicIndexOutOfRange i n) = False"
| "isFatal PanicSliceBounds = False"
| "isFatal e = True"

section \<open>Seeding\<close>

text \<open>
  The body of the loop of \<^verbatim>\<open>seedLife\<close> (\<^verbatim>\<open>main.go\<close>, lines 239 to 285) on one
  line of the input. Indexing a string or a slice outside its length panics.
\<close>

definition seedRecord :: "world \<Rightarrow> organisms \<Rightarrow> string \<Rightarrow> failure + organisms" where
  "seedRecord w organisms line =
     (let lineLength = int (length line) - 1
      in if length line = 0 then Inl (PanicIndexOutOfRange 0 0)
         else if line ! 0 \<noteq> CHR ''('' then Inl (FatalLeftParen (line ! 0))
         else if line ! nat lineLength \<noteq> CHR '')'' then Inl (FatalRightParen (line ! nat lineLength))
         else if lineLength < 1 then Inl PanicSliceBounds
         else
           (case stringsSplit (take (nat lineLength - 1) (drop 1 line)) (CHR '','') of
              [] \<Rightarrow> Inl (PanicIndexOutOfRange 0 0)
            | c0 # rest \<Rightarrow>
                (case strconvParseInt (stringsTrimSpace c0) of
                   None \<Rightarrow> Inl (FatalParseX c0)
                 | Some coordX \<Rightarrow>
                     (case rest of
                        [] \<Rightarrow> Inl (PanicIndexOutOfRange 1 1)
                      | c1 # others \<Rightarrow>
                          (case strconvParseInt (stringsTrimSpace c1) of
                             None \<Rightarrow> Inl (FatalParseY c1)
                           | Some coordY \<Rightarrow>
                               if sint coordX < sint (worldMinX w)
                               then Inl (FatalBelowMinX coordX (worldMinX w))
                               else if sint (worldMaxX w) < sint coordX
                               then Inl (FatalAboveMaxX coordX (worldMaxX w))
                               else if sint coordY < sint (worldMinY w)
                               then Inl (FatalBelowMinY coordY (worldMinY w))
                               else if sint (worldMaxY w) < sint coordY
                               then Inl (FatalAboveMaxY coordY (worldMaxY w))
                               else Inr (addOrganism w organisms coordX coordY))))))"

fun seedLines :: "world \<Rightarrow> organisms \<Rightarrow> string list \<Rightarrow> failure + organisms" where
  "seedLines w organisms [] = Inr organisms"
| "seedLines w organisms (line # lines) =
     (case seedRecord w organisms line of
        Inl e \<Rightarrow> Inl e
      | Inr organisms' \<Rightarrow> seedLines w organisms' lines)"

text \<open>
  \<^verbatim>\<open>seedLife\<close> on the text of the standard input or of the input file: the loop over
  the tokens of the scanner, and the check of \<^verbatim>\<open>scanner.Err()\<close> after it.
\<close>

definition seedLife :: "world \<Rightarrow> string \<Rightarrow> failure + organisms" where
  "seedLife w input =
     (case seedLines w Map.empty (scanLines input) of
        Inl e \<Rightarrow> Inl e
      | Inr organisms \<Rightarrow> if scannerErr input then Inl FatalReadInput else Inr organisms)"

section \<open>Output\<close>

text \<open>
  \<^verbatim>\<open>getSortedCoordXs\<close> and \<^verbatim>\<open>getSortedCoordYs\<close> collect the keys in the order of
  \<^verbatim>\<open>range\<close> and sort them ascending as signed integers. \<^verbatim>\<open>outputOrganisms\<close> returns
  the text that the source writes to the file; \<^verbatim>\<open>organisms[coordX][coordY] == 1\<close> is
  the two-level read that \<open>hasLife\<close> also does.
\<close>

definition getSortedCoordXs :: "ranged \<Rightarrow> int64 list" where
  "getSortedCoordXs ord = sort_key sint (map fst ord)"

definition getSortedCoordYs :: "(int64 \<times> int) list \<Rightarrow> int64 list" where
  "getSortedCoordYs organismsByX = sort_key sint (map fst organismsByX)"

definition rangedRow :: "ranged \<Rightarrow> int64 \<Rightarrow> (int64 \<times> int) list" where
  "rangedRow ord coordX = (case map_of ord coordX of Some coordYs \<Rightarrow> coordYs | None \<Rightarrow> [])"

definition coordLine :: "int64 \<times> int64 \<Rightarrow> string" where
  "coordLine c = formatInt64 (fst c) @ '' '' @ formatInt64 (snd c) @ [CHR 0x0A]"

definition outputOrganisms :: "organisms \<Rightarrow> ranged \<Rightarrow> string" where
  "outputOrganisms organisms ord =
     ''#Life 1.06'' @ [CHR 0x0A]
     @ concat (map (\<lambda>coordX.
                 concat (map (\<lambda>coordY.
                           if hasLife organisms coordX coordY = 1
                           then coordLine (coordX, coordY)
                           else [])
                         (getSortedCoordYs (rangedRow ord coordX))))
               (getSortedCoordXs ord))"

section \<open>The program of main.go\<close>

text \<open>
  The command-line flags. \<^verbatim>\<open>flagWraparound\<close> belongs to \<^verbatim>\<open>main.go\<close>;
  \<^verbatim>\<open>flagDisableWraparound\<close>, \<^verbatim>\<open>flagNewLifeSpawn\<close> and \<^verbatim>\<open>flagExistingLifeRemain\<close>
  belong to the configuration-file variant. The names of the input file, the output
  file and the output directory only choose where text is read and written, and
  are left out together with the per-tick files.
\<close>

record flags =
  flagShowHelp :: bool
  flagTicks :: nat
  flagWraparound :: bool
  flagDisableWraparound :: bool
  flagWorldDimensions :: string
  flagNewLifeSpawn :: string
  flagExistingLifeRemain :: string

text \<open>The defaults that \<^verbatim>\<open>init\<close> of \<^verbatim>\<open>main.go\<close> registers (lines 36 to 44).\<close>

definition mainDefaults :: flags where
  "mainDefaults =
     \<lparr>flagShowHelp = False, flagTicks = 10, flagWraparound = True,
      flagDisableWraparound = False,
      flagWorldDimensions =
        ''-9223372036854775808:9223372036854775807;-9223372036854775808:9223372036854775807'',
      flagNewLifeSpawn = [], flagExistingLifeRemain = []\<rparr>"

text \<open>
  The parsing of the world dimensions, which \<^verbatim>\<open>bootstrap\<close> of \<^verbatim>\<open>main.go\<close> (lines 149
  to 194) and \<^verbatim>\<open>processConfigurationCli\<close> of the other variant both spell out.
\<close>

definition parseWorldDimensions :: "string \<Rightarrow> failure + (int64 \<times> int64 \<times> int64 \<times> int64)" where
  "parseWorldDimensions dimensions =
     (let parts = stringsSplit dimensions (CHR '';'')
      in if length parts \<noteq> 2 then Inl (FatalDimensions (length parts))
         else
           let partsX = stringsSplit (parts ! 0) (CHR '':'')
           in if length partsX \<noteq> 2 then Inl (FatalDirectionsX (length partsX))
              else
                let partsY = stringsSplit (parts ! 1) (CHR '':'')
                in if length partsY \<noteq> 2 then Inl (FatalDirectionsY (length partsY))
                   else
                     (case strconvParseInt (stringsTrimSpace (partsX ! 0)) of
                        None \<Rightarrow> Inl (FatalWorldMinX (partsX ! 0))
                      | Some minX \<Rightarrow>
                     (case strconvParseInt (stringsTrimSpace (partsX ! 1)) of
                        None \<Rightarrow> Inl (FatalWorldMaxX (partsX ! 1))
                      | Some maxX \<Rightarrow>
                     (case strconvParseInt (stringsTrimSpace (partsY ! 0)) of
                        None \<Rightarrow> Inl (FatalWorldMinY (partsY ! 0))
                      | Some minY \<Rightarrow>
                     (case strconvParseInt (stringsTrimSpace (partsY ! 1)) of
                        None \<Rightarrow> Inl (FatalWorldMaxY (partsY ! 1))
                      | Some maxY \<Rightarrow> Inr (minX, maxX, minY, maxY))))))"

text \<open>
  \<^verbatim>\<open>bootstrap\<close> of \<^verbatim>\<open>main.go\<close>, without the creation of the output directory: the
  result is the world that the rest of the run reads.
\<close>

definition bootstrap :: "flags \<Rightarrow> failure + world" where
  "bootstrap f =
     (if flagShowHelp f then Inl HelpShown
      else if flagTicks f < 1 then Inl (FatalTicks (flagTicks f))
      else (case parseWorldDimensions (flagWorldDimensions f) of
              Inl e \<Rightarrow> Inl e
            | Inr (minX, maxX, minY, maxY) \<Rightarrow>
                Inr \<lparr>worldMinX = minX, worldMaxX = maxX, worldMinY = minY, worldMaxY = maxY,
                     wraparound = flagWraparound f\<rparr>))"

text \<open>
  \<^verbatim>\<open>main\<close> of \<^verbatim>\<open>main.go\<close>: \<open>tickOrders\<close> gives the order of \<^verbatim>\<open>range\<close> in each pass
  of the loop and \<open>outOrder\<close> the one in the final \<^verbatim>\<open>outputOrganisms\<close>; the result
  is the text written to the output.
\<close>

fun runTicks :: "world \<Rightarrow> nat \<Rightarrow> ranged list \<Rightarrow> organisms \<Rightarrow> organisms" where
  "runTicks w 0 tickOrders organisms = organisms"
| "runTicks w (Suc n) tickOrders organisms =
     runTicks w n (tl tickOrders)
       (mainTick w organisms (case tickOrders of [] \<Rightarrow> [] | ord # rest \<Rightarrow> ord))"

definition mainGo :: "flags \<Rightarrow> string \<Rightarrow> ranged list \<Rightarrow> ranged \<Rightarrow> failure + string" where
  "mainGo f input tickOrders outOrder =
     (case bootstrap f of
        Inl e \<Rightarrow> Inl e
      | Inr w \<Rightarrow>
          (case seedLife w input of
             Inl e \<Rightarrow> Inl e
           | Inr organisms \<Rightarrow>
               Inr (outputOrganisms (runTicks w (flagTicks f) tickOrders organisms) outOrder)))"

section \<open>The configuration-file variant\<close>

text \<open>
  The variables \<^verbatim>\<open>app...\<close> of the second listing, the values that its \<^verbatim>\<open>init\<close> gives
  them, and the decoded configuration file.
\<close>

record app =
  appTicks :: nat
  appWraparound :: bool
  appWorldMinX :: int64
  appWorldMaxX :: int64
  appWorldMinY :: int64
  appWorldMaxY :: int64
  appNewLifeSpawn :: "int list"
  appExistingLifeRemain :: "int list"

definition appInit :: app where
  "appInit =
     \<lparr>appTicks = 10, appWraparound = True,
      appWorldMinX = - 9223372036854775808, appWorldMaxX = 9223372036854775807,
      appWorldMinY = - 9223372036854775808, appWorldMaxY = 9223372036854775807,
      appNewLifeSpawn = [3], appExistingLifeRemain = [2, 3]\<rparr>"

definition appFlagDefaults :: flags where
  "appFlagDefaults =
     \<lparr>flagShowHelp = False, flagTicks = 0, flagWraparound = True,
      flagDisableWraparound = False, flagWorldDimensions = [],
      flagNewLifeSpawn = [], flagExistingLifeRemain = []\<rparr>"

definition appWorld :: "app \<Rightarrow> world" where
  "appWorld a =
     \<lparr>worldMinX = appWorldMinX a, worldMaxX = appWorldMaxX a,
      worldMinY = appWorldMinY a, worldMaxY = appWorldMaxY a,
      wraparound = appWraparound a\<rparr>"

record ConfigurationFile =
  Ticks :: nat
  DisableWraparound :: bool
  XMinimum :: int64
  XMaximum :: int64
  YMinimum :: int64
  YMaximum :: int64
  NewLifeSpawn :: "int list"
  ExistingLifeRemain :: "int list"

text \<open>
  \<^verbatim>\<open>processConfigurationFile\<close>, from the decoded file on (\<open>None\<close> where no file was
  named); reading and decoding the file are left out.
\<close>

definition processConfigurationFile :: "ConfigurationFile option \<Rightarrow> app \<Rightarrow> app" where
  "processConfigurationFile file a =
     (case file of
        None \<Rightarrow> a
      | Some cf \<Rightarrow>
          let a1 = (if Ticks cf \<noteq> 0 then a\<lparr>appTicks := Ticks cf\<rparr> else a);
              a2 = (if DisableWraparound cf then a1\<lparr>appWraparound := False\<rparr> else a1);
              a3 = (if XMinimum cf \<noteq> 0 \<or> XMaximum cf \<noteq> 0 \<or> YMinimum cf \<noteq> 0 \<or> YMaximum cf \<noteq> 0
                    then a2\<lparr>appWorldMinX := XMinimum cf, appWorldMaxX := XMaximum cf,
                            appWorldMinY := YMinimum cf, appWorldMaxY := XMaximum cf\<rparr>
                    else a2);
              a4 = (if 0 < length (NewLifeSpawn cf) then a3\<lparr>appNewLifeSpawn := NewLifeSpawn cf\<rparr> else a3)
          in if 0 < length (ExistingLifeRemain cf)
             then a4\<lparr>appExistingLifeRemain := ExistingLifeRemain cf\<rparr>
             else a4)"

text \<open>
  The two loops of \<^verbatim>\<open>processConfigurationCli\<close> over the comma-separated counts:
  each must parse and be at least 1.
\<close>

fun parseNeighbors :: "(string \<Rightarrow> failure) \<Rightarrow> int list \<Rightarrow> string list \<Rightarrow> failure + int list" where
  "parseNeighbors err acc [] = Inr acc"
| "parseNeighbors err acc (neighborString # rest) =
     (case strconvAtoi (stringsTrimSpace neighborString) of
        None \<Rightarrow> Inl (err neighborString)
      | Some neighbor \<Rightarrow>
          if neighbor < 1 then Inl (FatalNeighbor neighbor)
          else parseNeighbors err (acc @ [neighbor]) rest)"

definition processConfigurationCli :: "flags \<Rightarrow> app \<Rightarrow> failure + app" where
  "processConfigurationCli f a =
     (let a1 = (if flagTicks f \<noteq> 0 then a\<lparr>appTicks := flagTicks f\<rparr> else a);
          a2 = (if \<not> flagDisableWraparound f then a1\<lparr>appWraparound := False\<rparr> else a1)
      in case (if flagWorldDimensions f \<noteq> []
               then (case parseWorldDimensions (flagWorldDimensions f) of
                       Inl e \<Rightarrow> Inl e
                     | Inr (minX, maxX, minY, maxY) \<Rightarrow>
                         Inr (a2\<lparr>appWorldMinX := minX, appWorldMaxX := maxX,
                                  appWorldMinY := minY, appWorldMaxY := maxY\<rparr>))
               else Inr a2) of
           Inl e \<Rightarrow> Inl e
         | Inr a3 \<Rightarrow>
             (case (if flagNewLifeSpawn f \<noteq> []
                    then (case parseNeighbors FatalNewLifeSpawn []
                                 (stringsSplit (flagNewLifeSpawn f) (CHR '','')) of
                            Inl e \<Rightarrow> Inl e
                          | Inr spawn \<Rightarrow> Inr (a3\<lparr>appNewLifeSpawn := spawn\<rparr>))
                    else Inr a3) of
                Inl e \<Rightarrow> Inl e
              | Inr a4 \<Rightarrow>
                  if flagExistingLifeRemain f \<noteq> []
                  then (case parseNeighbors FatalExistingLifeRemain []
                               (stringsSplit (flagExistingLifeRemain f) (CHR '','')) of
                          Inl e \<Rightarrow> Inl e
                        | Inr remain \<Rightarrow> Inr (a4\<lparr>appExistingLifeRemain := remain\<rparr>))
                  else Inr a4))"

text \<open>
  \<^verbatim>\<open>bootstrap\<close> of the configuration-file variant, without the creation of the
  output directory, and the whole set-up of its \<^verbatim>\<open>main\<close> before \<^verbatim>\<open>seedLife\<close>.
\<close>

definition appBootstrap :: "app \<Rightarrow> failure + app" where
  "appBootstrap a =
     (if appTicks a < 1 then Inl (FatalTicks (appTicks a))
      else if sint (appWorldMaxX a) \<le> sint (appWorldMinX a)
      then Inl (FatalWorldX (appWorldMinX a) (appWorldMaxX a))
      else if sint (appWorldMaxY a) \<le> sint (appWorldMinY a)
      then Inl (FatalWorldY (appWorldMinY a) (appWorldMaxY a))
      else Inr a)"

definition appSetup :: "flags \<Rightarrow> ConfigurationFile option \<Rightarrow> failure + app" where
  "appSetup f file =
     (if flagShowHelp f then Inl HelpShown
      else (case processConfigurationCli f (processConfigurationFile file appInit) of
              Inl e \<Rightarrow> Inl e
            | Inr a \<Rightarrow> appBootstrap a))"

section \<open>Notions of the specification\<close>

text \<open>
  The definitions of this section are not code of the program: they state what the
  specification says about it, so that the program can be compared with them.
\<close>

subsection \<open>Resolution of one axis\<close>

text \<open>
  What the specification says of the resolution \<open>res\<close> of a coordinate \<open>c\<close> on an
  axis from \<open>lo\<close> to \<open>hi\<close>: at \<open>lo\<close> the lower neighbour is \<open>hi\<close> under wraparound
  and does not exist otherwise, at \<open>hi\<close> the same for the upper neighbour, and away
  from a boundary the neighbour is the integer before, respectively after, \<open>c\<close>.
\<close>

definition axisResolved ::
  "int64 \<Rightarrow> int64 \<Rightarrow> bool \<Rightarrow> int64 \<Rightarrow> int64 \<times> int64 \<times> bool \<times> bool \<Rightarrow> bool" where
  "axisResolved lo hi wrap c res \<longleftrightarrow>
     (case res of (lower, upper, lowerExists, upperExists) \<Rightarrow>
        (c = lo \<longrightarrow> (if wrap then lower = hi \<and> lowerExists else \<not> lowerExists)) \<and>
        (c = hi \<longrightarrow> (if wrap then upper = lo \<and> upperExists else \<not> upperExists)) \<and>
        (c \<noteq> lo \<longrightarrow> lower = c - 1 \<and> sint lower = sint c - 1 \<and> lowerExists) \<and>
        (c \<noteq> hi \<longrightarrow> upper = c + 1 \<and> sint upper = sint c + 1 \<and> upperExists))"

subsection \<open>The halo invariant and the generations of a run\<close>

definition inWorld :: "world \<Rightarrow> int64 \<Rightarrow> int64 \<Rightarrow> bool" where
  "inWorld w x y \<longleftrightarrow>
     sint (worldMinX w) \<le> sint x \<and> sint x \<le> sint (worldMaxX w) \<and>
     sint (worldMinY w) \<le> sint y \<and> sint y \<le> sint (worldMaxY w)"

text \<open>
  Every neighbour that the resolver gives for a coordinate marked alive has an entry
  in the map.
\<close>

definition haloInvariant :: "world \<Rightarrow> organisms \<Rightarrow> bool" where
  "haloInvariant w organisms \<longleftrightarrow>
     (\<forall>x y. hasLife organisms x y = 1 \<longrightarrow>
        (\<forall>(a, b) \<in> set (neighborCoords w x y). cell organisms a b \<noteq> None))"

text \<open>
  The maps that a run can hold: the one that \<^verbatim>\<open>seedLife\<close> returns, and the one that
  a pass of the tick loop of either variant builds from such a map, for any order of
  \<^verbatim>\<open>range\<close>.
\<close>

inductive generation :: "world \<Rightarrow> organisms \<Rightarrow> bool" for w :: world where
  seeded: "seedLife w input = Inr organisms \<Longrightarrow> generation w organisms"
| ticked: "generation w organisms \<Longrightarrow> rangesOver organisms ord \<Longrightarrow>
     generation w (mainTick w organisms ord)"
| appTicked: "generation w organisms \<Longrightarrow> rangesOver organisms ord \<Longrightarrow>
     generation w (appTick w birth survive organisms ord)"

subsection \<open>The naive step\<close>

text \<open>
  The transition as sections 4.1 to 4.3 of the specification word it, applied to
  every coordinate of the world rather than to the entries of the map.
  \<open>resolveAxis\<close> gives the lower and the upper neighbour where they exist;
  \<open>specNeighbors\<close> is the list of the combinations of the two resolutions in which
  both parts exist, without the coordinate's own position; \<open>stateOf\<close> is alive for
  an explicit alive entry only; the count is the number of listed neighbours that
  report alive.
\<close>

definition resolveAxis :: "int64 \<Rightarrow> int64 \<Rightarrow> int64 \<Rightarrow> bool \<Rightarrow> int64 option \<times> int64 option" where
  "resolveAxis coord lo hi wrap =
     (if coord = lo then (if wrap then Some hi else None) else Some (coord - 1),
      if coord = hi then (if wrap then Some lo else None) else Some (coord + 1))"

fun combine :: "int64 option \<Rightarrow> int64 option \<Rightarrow> (int64 \<times> int64) list" where
  "combine (Some a) (Some b) = [(a, b)]"
| "combine a b = []"

definition specNeighbors :: "world \<Rightarrow> int64 \<Rightarrow> int64 \<Rightarrow> (int64 \<times> int64) list" where
  "specNeighbors w x y =
     (case resolveAxis x (worldMinX w) (worldMaxX w) (wraparound w) of (lowerX, upperX) \<Rightarrow>
      case resolveAxis y (worldMinY w) (worldMaxY w) (wraparound w) of (lowerY, upperY) \<Rightarrow>
        combine lowerX lowerY @ combine lowerX (Some y) @ combine lowerX upperY
      @ combine (Some x) lowerY @ combine (Some x) upperY
      @ combine upperX lowerY @ combine upperX (Some y) @ combine upperX upperY)"

definition stateOf :: "organisms \<Rightarrow> int64 \<times> int64 \<Rightarrow> bool" where
  "stateOf organisms c \<longleftrightarrow> cell organisms (fst c) (snd c) = Some 1"

definition naiveStep :: "world \<Rightarrow> int list \<Rightarrow> int list \<Rightarrow> organisms \<Rightarrow> (int64 \<times> int64) set" where
  "naiveStep w birth survive organisms =
     {(x, y). inWorld w x y \<and>
        (let n = int (length (filter (stateOf organisms) (specNeighbors w x y)))
         in if stateOf organisms (x, y) then n \<in> set survive else n \<in> set birth)}"

subsection \<open>The lines and the order of the output\<close>

text \<open>
  \<open>decimalNumeral s i\<close>: the text \<open>s\<close> is the decimal numeral of the integer \<open>i\<close>, a
  minus sign for a negative \<open>i\<close> and then the digits of its absolute value, without
  a leading zero. \<open>lifeLine c l\<close>: the text \<open>l\<close> is the line of the format Life 1.06
  for the coordinate \<open>c\<close>, the numerals of its x and of its y with one space between
  them and a line feed after them.
\<close>

definition digitsValue :: "string \<Rightarrow> nat" where
  "digitsValue ds = foldl (\<lambda>acc c. acc * 10 + (of_char c - 48)) 0 ds"

definition decimalNumeral :: "string \<Rightarrow> int \<Rightarrow> bool" where
  "decimalNumeral s i \<longleftrightarrow>
     (\<exists>ds. s = (if i < 0 then CHR ''-'' # ds else ds)
         \<and> ds \<noteq> [] \<and> set ds \<subseteq> set ''0123456789''
         \<and> (length ds = 1 \<or> hd ds \<noteq> CHR ''0'')
         \<and> int (digitsValue ds) = \<bar>i\<bar>)"

definition lifeLine :: "int64 \<times> int64 \<Rightarrow> string \<Rightarrow> bool" where
  "lifeLine c l \<longleftrightarrow>
     (\<exists>fx fy. l = fx @ '' '' @ fy @ [CHR 0x0A]
        \<and> decimalNumeral fx (sint (fst c)) \<and> decimalNumeral fy (sint (snd c)))"

text \<open>Ascending X, then ascending Y within one X.\<close>

definition coordLess :: "int64 \<times> int64 \<Rightarrow> int64 \<times> int64 \<Rightarrow> bool" where
  "coordLess c d \<longleftrightarrow> sint (fst c) < sint (fst d) \<or> (fst c = fst d \<and> sint (snd c) < sint (snd d))"

subsection \<open>A serialization as seed input\<close>

text \<open>
  The seed input that says what a serialization says: the header line dropped, and
  each line \<^verbatim>\<open>x y\<close> written as the record \<^verbatim>\<open>(x,y)\<close>.
\<close>

definition recordOfLine :: "string \<Rightarrow> string" where
  "recordOfLine l = ''('' @ map (\<lambda>c. if c = CHR '' '' then CHR '','' else c) l @ '')''"

definition seedInputOf :: "string \<Rightarrow> string" where
  "seedInputOf output = concat (map (\<lambda>l. recordOfLine l @ [CHR 0x0A]) (tl (scanLines output)))"

section \<open>Auxiliary notions of the proofs\<close>

text \<open>The two slices that \<^verbatim>\<open>addOrganism\<close> builds.\<close>

definition haloXs :: "world \<Rightarrow> int64 \<Rightarrow> int64 list" where
  "haloXs w x = (case getNeighborsX w x of (l, r, le, re) \<Rightarrow>
      [x] @ (if le then [l] else []) @ (if re then [r] else []))"

definition haloYs :: "world \<Rightarrow> int64 \<Rightarrow> int64 list" where
  "haloYs w y = (case getNeighborsY w y of (b, t, be, te) \<Rightarrow>
      [y] @ (if be then [b] else []) @ (if te then [t] else []))"

text \<open>A sequence of insertions, and the insertions that a pass of the tick loop makes.\<close>

definition addAll :: "world \<Rightarrow> (int64 \<times> int64) list \<Rightarrow> organisms \<Rightarrow> organisms" where
  "addAll w cs organisms = fold (\<lambda>(x, y) organisms. addOrganism w organisms x y) cs organisms"

definition births :: "(int64 \<Rightarrow> int64 \<Rightarrow> int \<Rightarrow> bool) \<Rightarrow> ranged \<Rightarrow> (int64 \<times> int64) list" where
  "births dec ord =
     concat (map (\<lambda>(x, ys). map (\<lambda>(y, a). (x, y)) (filter (\<lambda>(y, a). dec x y a) ys)) ord)"

definition countAt :: "world \<Rightarrow> organisms \<Rightarrow> int64 \<Rightarrow> int64 \<Rightarrow> int" where
  "countAt w organisms x y = neighborsAlive organisms (getNeighborsX w x) (getNeighborsY w y) x y"

definition mainDecision :: "int \<Rightarrow> int \<Rightarrow> bool" where
  "mainDecision alive n \<longleftrightarrow> 2 \<le> n \<and> n \<le> 3 \<and> (alive = 1 \<or> n = 3)"

definition appDecision :: "int list \<Rightarrow> int list \<Rightarrow> int \<Rightarrow> int \<Rightarrow> bool" where
  "appDecision birth survive alive n \<longleftrightarrow> n \<in> set (if alive = 1 then survive else birth)"

text \<open>\<open>n\<close> is the lower or the upper neighbour that the resolver gives for \<open>c\<close>.\<close>

definition axisNeighbor :: "int64 \<Rightarrow> int64 \<Rightarrow> bool \<Rightarrow> int64 \<Rightarrow> int64 \<Rightarrow> bool" where
  "axisNeighbor lo hi wrap c n \<longleftrightarrow>
     (c = lo \<and> wrap \<and> n = hi) \<or> (c \<noteq> lo \<and> n = c - 1) \<or>
     (c = hi \<and> wrap \<and> n = lo) \<or> (c \<noteq> hi \<and> n = c + 1)"

text \<open>The coordinates for which \<^verbatim>\<open>outputOrganisms\<close> writes a line, in the order of the lines.\<close>

definition emitted :: "organisms \<Rightarrow> ranged \<Rightarrow> (int64 \<times> int64) list" where
  "emitted organisms ord =
     concat (map (\<lambda>x. map (Pair x) (filter (\<lambda>y. hasLife organisms x y = 1)
                                  (getSortedCoordYs (rangedRow ord x))))
                 (getSortedCoordXs ord))"

text \<open>The text of a coordinate as a seed record and as a line of the output.\<close>

definition recordText :: "int64 \<times> int64 \<Rightarrow> string" where
  "recordText c = ''('' @ formatInt64 (fst c) @ '','' @ formatInt64 (snd c) @ '')''"

definition lineText :: "int64 \<times> int64 \<Rightarrow> string" where
  "lineText c = formatInt64 (fst c) @ '' '' @ formatInt64 (snd c)"

text \<open>Marks are 0 or 1, and every entry lies in the world.\<close>

definition entriesValid :: "world \<Rightarrow> organisms \<Rightarrow> bool" where
  "entriesValid w organisms \<longleftrightarrow>
     (\<forall>x y v. cell organisms x y = Some v \<longrightarrow> (v = 0 \<or> v = 1) \<and> inWorld w x y)"

section \<open>Examples\<close>

text \<open>Concrete worlds, maps and inputs on which the theorems below are instantiated.\<close>

definition hardWorld :: world where
  "hardWorld = \<lparr>worldMinX = 0, worldMaxX = 10, worldMinY = 0, worldMaxY = 10, wraparound = False\<rparr>"

definition twoCellWorld :: world where
  "twoCellWorld = \<lparr>worldMinX = 0, worldMaxX = 1, worldMinY = 0, worldMaxY = 5, wraparound = True\<rparr>"

definition loneNeighbor :: organisms where
  "loneNeighbor = [1 \<mapsto> [2 \<mapsto> 1]]"

definition signedOrder :: ranged where
  "signedOrder = [(1, [(3, 0), (2, 1)]), (- 1, [(- 12, 1), (5, 1)])]"

definition signedExample :: organisms where
  "signedExample = [- 1 \<mapsto> [5 \<mapsto> 1, - 12 \<mapsto> 1], 1 \<mapsto> [2 \<mapsto> 1, 3 \<mapsto> 0]]"

definition seedText :: string where
  "seedText = ''(0,0)'' @ [CHR 0x0A] @ ''(1,0)'' @ [CHR 0x0A] @ ''(0,1)'' @ [CHR 0x0A]"

definition seedGeneration :: organisms where
  "seedGeneration =
     [2 \<mapsto> [0 \<mapsto> 0, 1 \<mapsto> 0], 1 \<mapsto> [1 \<mapsto> 0, 0 \<mapsto> 1, 2 \<mapsto> 0], 0 \<mapsto> [0 \<mapsto> 1, 2 \<mapsto> 0, 1 \<mapsto> 1]]"

definition seedOrder :: ranged where
  "seedOrder = [(0, [(1, 1), (2, 0), (0, 1)]), (1, [(2, 0), (0, 1), (1, 0)]), (2, [(1, 0), (0, 0)])]"

section \<open>Properties\<close>

lemma sint_pred:
  fixes x lo :: int64
  assumes "x \<noteq> lo" "sint lo \<le> sint x"
  shows "sint (x - 1) = sint x - 1"
proof -
  have ne: "sint x \<noteq> sint lo" using assms(1) signed_word_eqI [of x lo] by auto
  have lo: "- (2 ^ 63) \<le> sint lo" using sint_ge [of lo] by simp
  have hi: "sint x < 2 ^ 63" using sint_lt [of x] by simp
  have "sint (x - 1) = signed_take_bit 63 (sint x - 1)"
    by (simp add: sint_word_ariths)
  also have "\<dots> = sint x - 1"
    using ne lo hi assms(2) by (intro signed_take_bit_int_eq_self) auto
  finally show ?thesis .
qed

lemma sint_succ:
  fixes x hi :: int64
  assumes "x \<noteq> hi" "sint x \<le> sint hi"
  shows "sint (x + 1) = sint x + 1"
proof -
  have ne: "sint x \<noteq> sint hi" using assms(1) signed_word_eqI [of x hi] by auto
  have lo: "- (2 ^ 63) \<le> sint x" using sint_ge [of x] by simp
  have hi: "sint hi < 2 ^ 63" using sint_lt [of hi] by simp
  have "sint (x + 1) = signed_take_bit 63 (sint x + 1)"
    by (simp add: sint_word_ariths)
  also have "\<dots> = sint x + 1"
    using ne lo hi assms(2) by (intro signed_take_bit_int_eq_self) auto
  finally show ?thesis .
qed

lemma hasLife_cell:
  "hasLife organisms x y = (case cell organisms x y of Some v \<Rightarrow> v | None \<Rightarrow> 0)"
  by (simp add: hasLife_def cell_def rowOf_def split: option.splits)

lemma cell_setCell:
  "cell (setCell organisms x y v) a b = (if a = x \<and> b = y then Some v else cell organisms a b)"
  by (simp add: cell_def setCell_def rowOf_def)

lemma cell_stubYs:
  "cell (stubYs organisms x ys) a b =
     (if a = x \<and> b \<in> set ys \<and> cell organisms a b = None then Some 0 else cell organisms a b)"
  by (induction ys arbitrary: organisms) (auto simp: cell_setCell)

lemma cell_make_row:
  "cell (if organisms x = None then organisms(x \<mapsto> Map.empty) else organisms) a b = cell organisms a b"
  by (simp add: cell_def rowOf_def)

lemma cell_stubXs:
  "cell (stubXs organisms xs ys) a b =
     (if a \<in> set xs \<and> b \<in> set ys \<and> cell organisms a b = None then Some 0 else cell organisms a b)"
proof (induction xs arbitrary: organisms)
  case Nil
  then show ?case by simp
next
  case (Cons x xs)
  show ?case
    unfolding stubXs.simps Cons.IH cell_stubYs cell_make_row
    by auto
qed

lemma addOrganism_halo:
  "addOrganism w organisms x y = setCell (stubXs organisms (haloXs w x) (haloYs w y)) x y 1"
proof -
  obtain l r le re where X: "getNeighborsX w x = (l, r, le, re)"
    by (cases "getNeighborsX w x")
  obtain bo t be te where Y: "getNeighborsY w y = (bo, t, be, te)"
    by (cases "getNeighborsY w y")
  show ?thesis
    by (simp add: addOrganism_def haloXs_def haloYs_def X Y Let_def)
qed

lemma cell_addOrganism:
  "cell (addOrganism w organisms x y) a b =
     (if a = x \<and> b = y then Some 1
      else if a \<in> set (haloXs w x) \<and> b \<in> set (haloYs w y) \<and> cell organisms a b = None then Some 0
      else cell organisms a b)"
  by (simp add: addOrganism_halo cell_setCell cell_stubXs)

lemma neighborCoords_halo:
  "(a, b) \<in> set (neighborCoords w x y) \<Longrightarrow> a \<in> set (haloXs w x) \<and> b \<in> set (haloYs w y)"
proof -
  assume m: "(a, b) \<in> set (neighborCoords w x y)"
  obtain l r le re where X: "getNeighborsX w x = (l, r, le, re)"
    by (cases "getNeighborsX w x")
  obtain bo t be te where Y: "getNeighborsY w y = (bo, t, be, te)"
    by (cases "getNeighborsY w y")
  from m show ?thesis
    by (auto simp: neighborCoords_def haloXs_def haloYs_def X Y split: if_splits)
qed

lemma getNeighborsX_eq:
  "getNeighborsX w x =
     (if x = worldMinX w then (if wraparound w then worldMaxX w else 0) else x - 1,
      if x = worldMaxX w then (if wraparound w then worldMinX w else 0) else x + 1,
      x = worldMinX w \<longrightarrow> wraparound w,
      x = worldMaxX w \<longrightarrow> wraparound w)"
  by (simp add: getNeighborsX_def)

lemma getNeighborsY_eq:
  "getNeighborsY w y =
     (if y = worldMinY w then (if wraparound w then worldMaxY w else 0) else y - 1,
      if y = worldMaxY w then (if wraparound w then worldMinY w else 0) else y + 1,
      y = worldMinY w \<longrightarrow> wraparound w,
      y = worldMaxY w \<longrightarrow> wraparound w)"
  by (simp add: getNeighborsY_def)

lemma axisResolved_X:
  assumes "sint (worldMinX w) \<le> sint x" "sint x \<le> sint (worldMaxX w)"
  shows "axisResolved (worldMinX w) (worldMaxX w) (wraparound w) x (getNeighborsX w x)"
  using assms sint_pred [of x "worldMinX w"] sint_succ [of x "worldMaxX w"]
  by (simp add: axisResolved_def getNeighborsX_eq)

lemma axisResolved_Y:
  assumes "sint (worldMinY w) \<le> sint y" "sint y \<le> sint (worldMaxY w)"
  shows "axisResolved (worldMinY w) (worldMaxY w) (wraparound w) y (getNeighborsY w y)"
  using assms sint_pred [of y "worldMinY w"] sint_succ [of y "worldMaxY w"]
  by (simp add: axisResolved_def getNeighborsY_eq)

lemma hard_edge_left:
  assumes "\<not> wraparound w" "sint (worldMinX w) \<le> sint (worldMaxX w)"
    and "(a, b) \<in> set (neighborCoords w (worldMinX w) y)"
  shows "sint (worldMinX w) \<le> sint a"
proof -
  have "a = worldMinX w \<or> (worldMinX w \<noteq> worldMaxX w \<and> a = worldMinX w + 1)"
    using assms(1,3)
    by (auto simp: neighborCoords_def getNeighborsX_eq getNeighborsY_eq split: if_splits)
  then show ?thesis
    using sint_succ [of "worldMinX w" "worldMaxX w"] assms(2) by auto
qed

lemma hard_corner:
  assumes "\<not> wraparound w"
  shows "length (neighborCoords w (worldMinX w) (worldMinY w)) \<le> 3"
  using assms by (simp add: neighborCoords_def getNeighborsX_eq getNeighborsY_eq)

text \<open>
  Claim C2. For a coordinate within the bounds of its axis, the resolver gives at the
  minimum the maximum as lower neighbour when wraparound is on and no lower neighbour
  when it is off, the same at the maximum for the upper neighbour, and otherwise the
  integers before and after the coordinate, which both exist. Hence, without
  wraparound, no neighbour of a cell in the column \<open>worldMinX\<close> has an x-coordinate
  below \<open>worldMinX\<close>, and the corner cell at the two minima has at most three
  neighbours.
\<close>

theorem neighbor_resolution:
  assumes "sint (worldMinX w) \<le> sint x" "sint x \<le> sint (worldMaxX w)"
    and "sint (worldMinY w) \<le> sint y" "sint y \<le> sint (worldMaxY w)"
  shows "axisResolved (worldMinX w) (worldMaxX w) (wraparound w) x (getNeighborsX w x)
       \<and> axisResolved (worldMinY w) (worldMaxY w) (wraparound w) y (getNeighborsY w y)
       \<and> (\<not> wraparound w \<and> x = worldMinX w \<longrightarrow>
            (\<forall>(a, b) \<in> set (neighborCoords w x y). \<not> sint a < sint (worldMinX w)))
       \<and> (\<not> wraparound w \<and> x = worldMinX w \<and> y = worldMinY w \<longrightarrow>
            length (neighborCoords w x y) \<le> 3)"
proof (intro conjI impI)
  show "axisResolved (worldMinX w) (worldMaxX w) (wraparound w) x (getNeighborsX w x)"
    using assms(1,2) by (rule axisResolved_X)
  show "axisResolved (worldMinY w) (worldMaxY w) (wraparound w) y (getNeighborsY w y)"
    using assms(3,4) by (rule axisResolved_Y)
next
  assume h: "\<not> wraparound w \<and> x = worldMinX w"
  then have le: "sint (worldMinX w) \<le> sint (worldMaxX w)" using assms(2) by simp
  show "\<forall>(a, b) \<in> set (neighborCoords w x y). \<not> sint a < sint (worldMinX w)"
    using hard_edge_left [OF _ le] h by fastforce
next
  assume "\<not> wraparound w \<and> x = worldMinX w \<and> y = worldMinY w"
  then show "length (neighborCoords w x y) \<le> 3"
    using hard_corner by simp
qed

theorem neighbor_resolution_witness:
  "sint (worldMinX hardWorld) \<le> sint (0 :: int64) \<and> sint (0 :: int64) \<le> sint (worldMaxX hardWorld)
   \<and> getNeighborsX hardWorld 0 = (0, 1, False, True)
   \<and> neighborCoords hardWorld 0 0 = [(1, 0), (1, 1), (0, 1)]
   \<and> axisResolved 0 10 False 0 (0, 1, False, True)
   \<and> list_all (\<lambda>(a, b). \<not> sint a < sint (worldMinX hardWorld)) (neighborCoords hardWorld 0 0)
   \<and> length (neighborCoords hardWorld 0 0) \<le> 3"
  using neighbor_resolution [of hardWorld 0 0]
  by (simp add: hardWorld_def getNeighborsX_eq getNeighborsY_eq neighborCoords_def)

lemma two_cell_X:
  assumes "wraparound w" "worldMaxX w = worldMinX w + 1" "x = worldMinX w \<or> x = worldMaxX w"
  shows "getNeighborsX w x = (if x = worldMinX w then (worldMaxX w, worldMaxX w, True, True)
                              else (worldMinX w, worldMinX w, True, True))"
  using assms by (auto simp: getNeighborsX_eq)

lemma two_cell_Y:
  assumes "wraparound w" "worldMaxY w = worldMinY w + 1" "y = worldMinY w \<or> y = worldMaxY w"
  shows "getNeighborsY w y = (if y = worldMinY w then (worldMaxY w, worldMaxY w, True, True)
                              else (worldMinY w, worldMinY w, True, True))"
  using assms by (auto simp: getNeighborsY_eq)

text \<open>
  Claim C10. In a world with wraparound whose X axis has \<open>worldMaxX = worldMinX + 1\<close>,
  the left and the right neighbour of a column of the world are the same column
  \<open>n\<close>, both exist, and the count adds the mark of each cell of that column twice: a
  single live cell at \<open>(n, y)\<close> contributes 2. The same holds on the Y axis.
\<close>

theorem two_cell_axis_double_count:
  assumes "wraparound w"
  shows "(worldMaxX w = worldMinX w + 1 \<and> (x = worldMinX w \<or> x = worldMaxX w) \<longrightarrow>
           (let n = (if x = worldMinX w then worldMaxX w else worldMinX w)
            in n \<noteq> x
               \<and> getNeighborsX w x = (n, n, True, True)
               \<and> neighborsAlive organisms (getNeighborsX w x) (b, t, be, te) x y
                   = 2 * hasLife organisms n y
                   + 2 * (if be then hasLife organisms n b else 0)
                   + 2 * (if te then hasLife organisms n t else 0)
                   + (if be then hasLife organisms x b else 0)
                   + (if te then hasLife organisms x t else 0)))
       \<and> (worldMaxY w = worldMinY w + 1 \<and> (y = worldMinY w \<or> y = worldMaxY w) \<longrightarrow>
           (let n = (if y = worldMinY w then worldMaxY w else worldMinY w)
            in n \<noteq> y
               \<and> getNeighborsY w y = (n, n, True, True)
               \<and> neighborsAlive organisms (l, r, le, re) (getNeighborsY w y) x y
                   = 2 * hasLife organisms x n
                   + 2 * (if le then hasLife organisms l n else 0)
                   + 2 * (if re then hasLife organisms r n else 0)
                   + (if le then hasLife organisms l y else 0)
                   + (if re then hasLife organisms r y else 0)))"
proof (intro conjI impI)
  assume h: "worldMaxX w = worldMinX w + 1 \<and> (x = worldMinX w \<or> x = worldMaxX w)"
  define n where "n = (if x = worldMinX w then worldMaxX w else worldMinX w)"
  have X: "getNeighborsX w x = (n, n, True, True)"
    using two_cell_X [of w x] assms h by (auto simp: n_def)
  have ne: "n \<noteq> x" using h by (auto simp: n_def)
  have "neighborsAlive organisms (n, n, True, True) (b, t, be, te) x y
                   = 2 * hasLife organisms n y
                   + 2 * (if be then hasLife organisms n b else 0)
                   + 2 * (if te then hasLife organisms n t else 0)
                   + (if be then hasLife organisms x b else 0)
                   + (if te then hasLife organisms x t else 0)"
    by (simp add: neighborsAlive_def)
  with X ne show "let n = (if x = worldMinX w then worldMaxX w else worldMinX w)
            in n \<noteq> x
               \<and> getNeighborsX w x = (n, n, True, True)
               \<and> neighborsAlive organisms (getNeighborsX w x) (b, t, be, te) x y
                   = 2 * hasLife organisms n y
                   + 2 * (if be then hasLife organisms n b else 0)
                   + 2 * (if te then hasLife organisms n t else 0)
                   + (if be then hasLife organisms x b else 0)
                   + (if te then hasLife organisms x t else 0)"
    unfolding Let_def n_def [symmetric] by simp
next
  assume h: "worldMaxY w = worldMinY w + 1 \<and> (y = worldMinY w \<or> y = worldMaxY w)"
  define n where "n = (if y = worldMinY w then worldMaxY w else worldMinY w)"
  have Y: "getNeighborsY w y = (n, n, True, True)"
    using two_cell_Y [of w y] assms h by (auto simp: n_def)
  have ne: "n \<noteq> y" using h by (auto simp: n_def)
  have "neighborsAlive organisms (l, r, le, re) (n, n, True, True) x y
                   = 2 * hasLife organisms x n
                   + 2 * (if le then hasLife organisms l n else 0)
                   + 2 * (if re then hasLife organisms r n else 0)
                   + (if le then hasLife organisms l y else 0)
                   + (if re then hasLife organisms r y else 0)"
    by (simp add: neighborsAlive_def)
  with Y ne show "let n = (if y = worldMinY w then worldMaxY w else worldMinY w)
            in n \<noteq> y
               \<and> getNeighborsY w y = (n, n, True, True)
               \<and> neighborsAlive organisms (l, r, le, re) (getNeighborsY w y) x y
                   = 2 * hasLife organisms x n
                   + 2 * (if le then hasLife organisms l n else 0)
                   + 2 * (if re then hasLife organisms r n else 0)
                   + (if le then hasLife organisms l y else 0)
                   + (if re then hasLife organisms r y else 0)"
    unfolding Let_def n_def [symmetric] by simp
qed

theorem two_cell_axis_double_count_witness:
  "wraparound twoCellWorld \<and> worldMaxX twoCellWorld = worldMinX twoCellWorld + 1
   \<and> getNeighborsX twoCellWorld 0 = (1, 1, True, True)
   \<and> hasLife loneNeighbor 1 2 = 1
   \<and> neighborsAlive loneNeighbor (getNeighborsX twoCellWorld 0) (getNeighborsY twoCellWorld 2) 0 2 = 2"
proof -
  have w: "wraparound twoCellWorld" by (simp add: twoCellWorld_def)
  have h: "hasLife loneNeighbor 1 2 = 1" "hasLife loneNeighbor 1 1 = 0" "hasLife loneNeighbor 1 3 = 0"
    "hasLife loneNeighbor 0 1 = 0" "hasLife loneNeighbor 0 3 = 0"
    by (simp_all add: loneNeighbor_def hasLife_def)
  show ?thesis
    using two_cell_axis_double_count [OF w, THEN conjunct1, of 0 loneNeighbor 1 3 True True 2] h
    by (simp add: Let_def twoCellWorld_def getNeighborsX_def getNeighborsY_def)
qed

lemma addAll_Nil [simp]: "addAll w [] organisms = organisms"
  by (simp add: addAll_def)

lemma addAll_Cons [simp]: "addAll w ((x, y) # cs) organisms = addAll w cs (addOrganism w organisms x y)"
  by (simp add: addAll_def)

lemma addAll_append [simp]: "addAll w (cs @ ds) organisms = addAll w ds (addAll w cs organisms)"
  by (simp add: addAll_def)

lemma fold_row:
  "fold (\<lambda>(y, a) next. if dec y a then addOrganism w next x y else next) ys organisms
     = addAll w (map (\<lambda>(y, a). (x, y)) (filter (\<lambda>(y, a). dec y a) ys)) organisms"
  by (induction ys arbitrary: organisms) (auto simp: addAll_def)

lemma fold_rows:
  "fold (\<lambda>(x, ys) next. fold (\<lambda>(y, a) next. if dec x y a then addOrganism w next x y else next) ys next)
        ord organisms
     = addAll w (births dec ord) organisms"
proof (induction ord arbitrary: organisms)
  case Nil
  then show ?case by (simp add: births_def)
next
  case (Cons p ord)
  obtain x ys where p: "p = (x, ys)" by (cases p)
  have b: "births dec (p # ord) = map (\<lambda>(y, a). (x, y)) (filter (\<lambda>(y, a). dec x y a) ys) @ births dec ord"
    by (simp add: births_def p)
  show ?case
    unfolding b addAll_append
    by (simp add: p Cons.IH fold_row [of "dec x"])
qed

lemma neighborsCheck_set: "neighborsCheck n ks \<longleftrightarrow> n \<in> set ks"
  by (induction ks) auto

lemma if_if_same: "(if A then (if B then f else g) else g) = (if A \<and> B then f else g)"
  by simp

lemma mainTick_addAll:
  "mainTick w organisms ord
     = addAll w (births (\<lambda>x y a. mainDecision a (countAt w organisms x y)) ord) Map.empty"
  unfolding fold_rows [symmetric]
  by (simp add: mainTick_def Let_def if_if_same mainDecision_def countAt_def conj_assoc)

lemma appTick_addAll:
  "appTick w birth survive organisms ord
     = addAll w (births (\<lambda>x y a. appDecision birth survive a (countAt w organisms x y)) ord) Map.empty"
  unfolding fold_rows [symmetric]
  by (simp add: appTick_def Let_def appDecision_def countAt_def neighborsCheck_set)

lemma mainDecision_default: "mainDecision a n = appDecision [3] [2, 3] a n"
  by (auto simp: mainDecision_def appDecision_def)

lemma mainTick_appTick: "mainTick w organisms ord = appTick w [3] [2, 3] organisms ord"
  by (simp add: mainTick_addAll appTick_addAll mainDecision_default)

lemma cell_addAll_alive:
  "cell (addAll w cs organisms) a b = Some 1 \<longleftrightarrow> (a, b) \<in> set cs \<or> cell organisms a b = Some 1"
proof (induction cs arbitrary: organisms)
  case Nil
  then show ?case by simp
next
  case (Cons c cs)
  obtain x y where c: "c = (x, y)" by (cases c)
  show ?case
    unfolding c addAll_Cons Cons.IH
    by (auto simp: cell_addOrganism)
qed

lemma map_of_rows:
  assumes "distinct (map fst ord)"
  shows "map_of (map (\<lambda>(x, ys). (x, map_of ys)) ord) x = Some r \<longleftrightarrow> (\<exists>ys. (x, ys) \<in> set ord \<and> r = map_of ys)"
  using assms
proof (induction ord)
  case Nil
  then show ?case by simp
next
  case (Cons p ord)
  obtain x' ys' where p: "p = (x', ys')" by (cases p)
  from Cons.prems have nin: "x' \<notin> fst ` set ord" and d: "distinct (map fst ord)"
    by (simp_all add: p)
  show ?case
  proof (cases "x = x'")
    case True
    then have "\<And>ys. (x, ys) \<notin> set ord" using nin by force
    then show ?thesis using True by (auto simp: p)
  next
    case False
    then show ?thesis using Cons.IH [OF d] by (auto simp: p)
  qed
qed

lemma rangesOver_entries:
  assumes "rangesOver organisms ord"
  shows "cell organisms x y = Some a \<longleftrightarrow> (\<exists>ys. (x, ys) \<in> set ord \<and> (y, a) \<in> set ys)"
proof
  assume c: "cell organisms x y = Some a"
  then obtain r where r: "organisms x = Some r" "r y = Some a"
    by (auto simp: cell_def rowOf_def split: option.splits)
  from assms r(1) obtain ys where ys: "(x, ys) \<in> set ord" "r = map_of ys"
    using map_of_rows [of ord x r] by (auto simp: rangesOver_def)
  from r(2) ys(2) have "(y, a) \<in> set ys" by (simp add: map_of_SomeD)
  with ys(1) show "\<exists>ys. (x, ys) \<in> set ord \<and> (y, a) \<in> set ys" by blast
next
  assume "\<exists>ys. (x, ys) \<in> set ord \<and> (y, a) \<in> set ys"
  then obtain ys where ys: "(x, ys) \<in> set ord" "(y, a) \<in> set ys" by blast
  from assms ys(1) have d: "distinct (map fst ys)" by (auto simp: rangesOver_def)
  from assms ys(1) have "organisms x = Some (map_of ys)"
    using map_of_rows [of ord x "map_of ys"] by (auto simp: rangesOver_def)
  moreover have "map_of ys y = Some a" using d ys(2) by simp
  ultimately show "cell organisms x y = Some a" by (simp add: cell_def rowOf_def)
qed

lemma births_set:
  "(x, y) \<in> set (births dec ord) \<longleftrightarrow> (\<exists>ys a. (x, ys) \<in> set ord \<and> (y, a) \<in> set ys \<and> dec x y a)"
  by (induction ord) (auto simp: births_def)

lemma births_rangesOver:
  assumes "rangesOver organisms ord"
  shows "(x, y) \<in> set (births dec ord) \<longleftrightarrow> (\<exists>a. cell organisms x y = Some a \<and> dec x y a)"
  unfolding births_set rangesOver_entries [OF assms] by blast

lemma hasLife_alive: "hasLife organisms x y = 1 \<longleftrightarrow> cell organisms x y = Some 1"
  by (simp add: hasLife_cell split: option.splits)

lemma cell_empty [simp]: "cell Map.empty x y = None"
  by (simp add: cell_def rowOf_def)

lemma appTick_alive:
  assumes "rangesOver organisms ord"
  shows "hasLife (appTick w birth survive organisms ord) x y = 1
     \<longleftrightarrow> (\<exists>a. cell organisms x y = Some a \<and> appDecision birth survive a (countAt w organisms x y))"
  by (simp add: hasLife_alive appTick_addAll cell_addAll_alive births_rangesOver [OF assms])

subsection \<open>Entries only grow\<close>

lemma cell_addOrganism_keeps:
  "cell organisms a b \<noteq> None \<Longrightarrow> cell (addOrganism w organisms x y) a b \<noteq> None"
  by (simp add: cell_addOrganism)

lemma cell_addOrganism_halo:
  "a \<in> set (haloXs w x) \<Longrightarrow> b \<in> set (haloYs w y) \<Longrightarrow> cell (addOrganism w organisms x y) a b \<noteq> None"
  by (simp add: cell_addOrganism)

lemma hasLife_addOrganism:
  "hasLife (addOrganism w organisms x y) a b = 1 \<longleftrightarrow> (a = x \<and> b = y) \<or> hasLife organisms a b = 1"
  by (auto simp: hasLife_alive cell_addOrganism)

lemma haloInvariant_empty: "haloInvariant w Map.empty"
  by (simp add: haloInvariant_def hasLife_def)

lemma haloInvariant_addOrganism:
  assumes "haloInvariant w organisms"
  shows "haloInvariant w (addOrganism w organisms x y)"
  unfolding haloInvariant_def
proof (intro allI impI ballI)
  fix a b p
  assume alive: "hasLife (addOrganism w organisms x y) a b = 1"
    and p: "p \<in> set (neighborCoords w a b)"
  obtain c d where cd: "p = (c, d)" by (cases p)
  from alive consider "a = x \<and> b = y" | "hasLife organisms a b = 1"
    by (auto simp: hasLife_addOrganism)
  then have "cell (addOrganism w organisms x y) c d \<noteq> None"
  proof cases
    case 1
    with p cd have "c \<in> set (haloXs w x) \<and> d \<in> set (haloYs w y)"
      using neighborCoords_halo by blast
    then show ?thesis by (simp add: cell_addOrganism_halo)
  next
    case 2
    with assms p cd have "cell organisms c d \<noteq> None"
      unfolding haloInvariant_def by blast
    then show ?thesis by (rule cell_addOrganism_keeps)
  qed
  then show "case p of (a, b) \<Rightarrow> cell (addOrganism w organisms x y) a b \<noteq> None"
    by (simp add: cd)
qed

lemma haloInvariant_addAll:
  "haloInvariant w organisms \<Longrightarrow> haloInvariant w (addAll w cs organisms)"
proof (induction cs arbitrary: organisms)
  case Nil
  then show ?case by simp
next
  case (Cons c cs)
  obtain x y where c: "c = (x, y)" by (cases c)
  show ?case
    unfolding c addAll_Cons
    by (rule Cons.IH) (rule haloInvariant_addOrganism [OF Cons.prems])
qed

subsection \<open>Seeding is a sequence of insertions of coordinates of the world\<close>

lemma seedRecord_Inr:
  assumes "seedRecord w organisms line = Inr organisms'"
  shows "\<exists>x y. inWorld w x y \<and> organisms' = addOrganism w organisms x y"
proof -
  from assms obtain x y where "organisms' = addOrganism w organisms x y"
    and "\<not> sint x < sint (worldMinX w)" "\<not> sint (worldMaxX w) < sint x"
    and "\<not> sint y < sint (worldMinY w)" "\<not> sint (worldMaxY w) < sint y"
    by (auto simp: seedRecord_def Let_def split: if_splits list.splits option.splits)
  then show ?thesis
    by (intro exI [of _ x] exI [of _ y]) (simp add: inWorld_def)
qed

lemma seedLines_Inr:
  assumes "seedLines w organisms lines = Inr organisms'"
  shows "\<exists>cs. (\<forall>(x, y) \<in> set cs. inWorld w x y) \<and> organisms' = addAll w cs organisms"
  using assms
proof (induction lines arbitrary: organisms)
  case Nil
  then have "organisms' = addAll w [] organisms" by simp
  then show ?case by (intro exI [of _ "[]"]) simp
next
  case (Cons line lines)
  from Cons.prems obtain mid where mid: "seedRecord w organisms line = Inr mid"
    and rest: "seedLines w mid lines = Inr organisms'"
    by (auto split: sum.splits)
  from seedRecord_Inr [OF mid] obtain x y where xy: "inWorld w x y" "mid = addOrganism w organisms x y"
    by blast
  from Cons.IH [OF rest] obtain cs where cs: "\<forall>(x, y) \<in> set cs. inWorld w x y" "organisms' = addAll w cs mid"
    by blast
  show ?case
    using xy cs by (intro exI [of _ "(x, y) # cs"]) simp
qed

lemma seedLife_Inr:
  assumes "seedLife w input = Inr organisms"
  shows "\<exists>cs. (\<forall>(x, y) \<in> set cs. inWorld w x y) \<and> organisms = addAll w cs Map.empty"
proof -
  from assms have "seedLines w Map.empty (scanLines input) = Inr organisms"
    unfolding seedLife_def by (auto split: sum.splits if_splits)
  then show ?thesis by (rule seedLines_Inr)
qed

subsection \<open>Marks and bounds\<close>

lemma sint_neq: "(x :: int64) \<noteq> y \<Longrightarrow> sint x \<noteq> sint y"
  using signed_word_eqI [of x y] by auto

lemma axis_bounds:
  fixes c lo hi :: int64
  assumes "sint lo \<le> sint c" "sint c \<le> sint hi"
  shows "c \<noteq> lo \<Longrightarrow> sint lo \<le> sint (c - 1) \<and> sint (c - 1) \<le> sint hi"
    and "c \<noteq> hi \<Longrightarrow> sint lo \<le> sint (c + 1) \<and> sint (c + 1) \<le> sint hi"
proof -
  assume "c \<noteq> lo"
  then show "sint lo \<le> sint (c - 1) \<and> sint (c - 1) \<le> sint hi"
    using assms sint_pred [of c lo] sint_neq [of c lo] by simp
next
  assume "c \<noteq> hi"
  then show "sint lo \<le> sint (c + 1) \<and> sint (c + 1) \<le> sint hi"
    using assms sint_succ [of c hi] sint_neq [of c hi] by simp
qed

lemma haloXs_set:
  "a \<in> set (haloXs w x) \<longleftrightarrow>
     a = x \<or> (x = worldMinX w \<and> wraparound w \<and> a = worldMaxX w) \<or> (x \<noteq> worldMinX w \<and> a = x - 1)
           \<or> (x = worldMaxX w \<and> wraparound w \<and> a = worldMinX w) \<or> (x \<noteq> worldMaxX w \<and> a = x + 1)"
  by (cases "x = worldMinX w"; cases "x = worldMaxX w"; cases "wraparound w")
     (auto simp: haloXs_def getNeighborsX_def)

lemma haloYs_set:
  "b \<in> set (haloYs w y) \<longleftrightarrow>
     b = y \<or> (y = worldMinY w \<and> wraparound w \<and> b = worldMaxY w) \<or> (y \<noteq> worldMinY w \<and> b = y - 1)
           \<or> (y = worldMaxY w \<and> wraparound w \<and> b = worldMinY w) \<or> (y \<noteq> worldMaxY w \<and> b = y + 1)"
  by (cases "y = worldMinY w"; cases "y = worldMaxY w"; cases "wraparound w")
     (auto simp: haloYs_def getNeighborsY_def)

lemma haloXs_bounds:
  assumes "sint (worldMinX w) \<le> sint x" "sint x \<le> sint (worldMaxX w)" "a \<in> set (haloXs w x)"
  shows "sint (worldMinX w) \<le> sint a \<and> sint a \<le> sint (worldMaxX w)"
proof -
  from assms(3) consider "a = x" | "x = worldMinX w" "a = worldMaxX w"
    | "x \<noteq> worldMinX w" "a = x - 1" | "x = worldMaxX w" "a = worldMinX w"
    | "x \<noteq> worldMaxX w" "a = x + 1"
    unfolding haloXs_set by blast
  then show ?thesis
    using assms(1,2) axis_bounds [OF assms(1,2)] by cases auto
qed

lemma haloYs_bounds:
  assumes "sint (worldMinY w) \<le> sint y" "sint y \<le> sint (worldMaxY w)" "b \<in> set (haloYs w y)"
  shows "sint (worldMinY w) \<le> sint b \<and> sint b \<le> sint (worldMaxY w)"
proof -
  from assms(3) consider "b = y" | "y = worldMinY w" "b = worldMaxY w"
    | "y \<noteq> worldMinY w" "b = y - 1" | "y = worldMaxY w" "b = worldMinY w"
    | "y \<noteq> worldMaxY w" "b = y + 1"
    unfolding haloYs_set by blast
  then show ?thesis
    using assms(1,2) axis_bounds [OF assms(1,2)] by cases auto
qed

lemma self_in_halo: "x \<in> set (haloXs w x)" "y \<in> set (haloYs w y)"
  by (simp_all add: haloXs_set haloYs_set)

lemma entriesValid_empty: "entriesValid w Map.empty"
  by (simp add: entriesValid_def)

lemma entriesValid_addOrganism:
  assumes "entriesValid w organisms" "inWorld w x y"
  shows "entriesValid w (addOrganism w organisms x y)"
  unfolding entriesValid_def
proof (intro allI impI)
  fix a b v
  assume c: "cell (addOrganism w organisms x y) a b = Some v"
  have new: "a \<in> set (haloXs w x) \<and> b \<in> set (haloYs w y) \<Longrightarrow> inWorld w a b"
    using assms(2) haloXs_bounds [of w x a] haloYs_bounds [of w y b]
    by (simp add: inWorld_def)
  have "(a = x \<and> b = y \<and> v = 1)
      \<or> (a \<in> set (haloXs w x) \<and> b \<in> set (haloYs w y) \<and> v = 0)
      \<or> cell organisms a b = Some v"
  proof (cases "a = x \<and> b = y")
    case True
    with c show ?thesis by (simp add: cell_addOrganism)
  next
    case False
    show ?thesis
    proof (cases "a \<in> set (haloXs w x) \<and> b \<in> set (haloYs w y) \<and> cell organisms a b = None")
      case True
      with c False show ?thesis by (simp add: cell_addOrganism)
    next
      case False
      with c \<open>\<not> (a = x \<and> b = y)\<close> show ?thesis by (simp add: cell_addOrganism)
    qed
  qed
  then consider "a = x \<and> b = y \<and> v = 1"
    | "a \<in> set (haloXs w x) \<and> b \<in> set (haloYs w y) \<and> v = 0"
    | "cell organisms a b = Some v"
    by blast
  then show "(v = 0 \<or> v = 1) \<and> inWorld w a b"
  proof cases
    case 1
    then show ?thesis using new self_in_halo by simp
  next
    case 2
    then show ?thesis using new by simp
  next
    case 3
    then show ?thesis using assms(1) unfolding entriesValid_def by blast
  qed
qed

lemma entriesValid_addAll:
  "entriesValid w organisms \<Longrightarrow> \<forall>(x, y) \<in> set cs. inWorld w x y \<Longrightarrow>
     entriesValid w (addAll w cs organisms)"
proof (induction cs arbitrary: organisms)
  case Nil
  then show ?case by simp
next
  case (Cons c cs)
  obtain x y where c: "c = (x, y)" by (cases c)
  from Cons.prems(2) have xy: "inWorld w x y" and rest: "\<forall>(x, y) \<in> set cs. inWorld w x y"
    by (simp_all add: c)
  show ?case
    unfolding c addAll_Cons
    by (rule Cons.IH [OF entriesValid_addOrganism [OF Cons.prems(1) xy] rest])
qed

lemma births_inWorld:
  assumes "entriesValid w organisms" "rangesOver organisms ord"
  shows "\<forall>(x, y) \<in> set (births dec ord). inWorld w x y"
  using assms(1) unfolding entriesValid_def
  by (auto simp: births_rangesOver [OF assms(2)])

lemma invariants_addAll:
  assumes "\<forall>(x, y) \<in> set cs. inWorld w x y"
  shows "haloInvariant w (addAll w cs Map.empty) \<and> entriesValid w (addAll w cs Map.empty)"
  using haloInvariant_addAll [OF haloInvariant_empty]
    entriesValid_addAll [OF entriesValid_empty assms]
  by blast

lemma generation_invariants:
  assumes "generation w organisms"
  shows "haloInvariant w organisms \<and> entriesValid w organisms"
  using assms
proof (induction rule: generation.induct)
  case (seeded input organisms)
  from seedLife_Inr [OF seeded] obtain cs
    where cs: "\<forall>(x, y) \<in> set cs. inWorld w x y" "organisms = addAll w cs Map.empty"
    by blast
  show ?case
    unfolding cs(2) by (rule invariants_addAll [OF cs(1)])
next
  case (ticked organisms ord)
  then have v: "entriesValid w organisms" and r: "rangesOver organisms ord" by simp_all
  show ?case
    unfolding mainTick_addAll
    by (rule invariants_addAll [OF births_inWorld [OF v r]])
next
  case (appTicked organisms ord birth survive)
  then have v: "entriesValid w organisms" and r: "rangesOver organisms ord" by simp_all
  show ?case
    unfolding appTick_addAll
    by (rule invariants_addAll [OF births_inWorld [OF v r]])
qed

lemma axisNeighbor_X:
  assumes "getNeighborsX w x = (l, r, le, re)"
  shows "axisNeighbor (worldMinX w) (worldMaxX w) (wraparound w) x a \<longleftrightarrow> (le \<and> a = l) \<or> (re \<and> a = r)"
  using assms
  by (cases "x = worldMinX w"; cases "x = worldMaxX w"; cases "wraparound w")
     (auto simp: getNeighborsX_def axisNeighbor_def)

lemma axisNeighbor_Y:
  assumes "getNeighborsY w y = (bo, t, be, te)"
  shows "axisNeighbor (worldMinY w) (worldMaxY w) (wraparound w) y b \<longleftrightarrow> (be \<and> b = bo) \<or> (te \<and> b = t)"
  using assms
  by (cases "y = worldMinY w"; cases "y = worldMaxY w"; cases "wraparound w")
     (auto simp: getNeighborsY_def axisNeighbor_def)

lemma neighborCoords_set:
  "(a, b) \<in> set (neighborCoords w x y) \<longleftrightarrow>
     (axisNeighbor (worldMinX w) (worldMaxX w) (wraparound w) x a
        \<and> (b = y \<or> axisNeighbor (worldMinY w) (worldMaxY w) (wraparound w) y b))
     \<or> (a = x \<and> axisNeighbor (worldMinY w) (worldMaxY w) (wraparound w) y b)"
proof -
  obtain l r le re where X: "getNeighborsX w x = (l, r, le, re)"
    by (cases "getNeighborsX w x")
  obtain bo t be te where Y: "getNeighborsY w y = (bo, t, be, te)"
    by (cases "getNeighborsY w y")
  show ?thesis
    unfolding axisNeighbor_X [OF X] axisNeighbor_Y [OF Y]
    by (cases le; cases re; cases be; cases te) (auto simp: neighborCoords_def X Y)
qed

lemma axisNeighbor_sym:
  fixes c lo hi :: int64
  assumes "sint lo \<le> sint c" "sint c \<le> sint hi" "axisNeighbor lo hi wrap c n"
  shows "axisNeighbor lo hi wrap n c"
proof -
  from assms(3) consider "c = lo" "wrap" "n = hi" | "c \<noteq> lo" "n = c - 1"
    | "c = hi" "wrap" "n = lo" | "c \<noteq> hi" "n = c + 1"
    unfolding axisNeighbor_def by blast
  then show ?thesis
  proof cases
    case 1
    then show ?thesis by (simp add: axisNeighbor_def)
  next
    case 2
    have "sint (c - 1) = sint c - 1" using sint_pred [OF 2(1) assms(1)] .
    then have "sint (c - 1) \<noteq> sint hi" using assms(2) by simp
    then have "c - 1 \<noteq> hi" by auto
    then show ?thesis using 2 by (simp add: axisNeighbor_def)
  next
    case 3
    then show ?thesis by (simp add: axisNeighbor_def)
  next
    case 4
    have "sint (c + 1) = sint c + 1" using sint_succ [OF 4(1) assms(2)] .
    then have "sint (c + 1) \<noteq> sint lo" using assms(1) by simp
    then have "c + 1 \<noteq> lo" by auto
    then show ?thesis using 4 by (simp add: axisNeighbor_def)
  qed
qed

lemma neighborCoords_sym:
  assumes "inWorld w x y" "(a, b) \<in> set (neighborCoords w x y)"
  shows "(x, y) \<in> set (neighborCoords w a b)"
proof -
  have X: "axisNeighbor (worldMinX w) (worldMaxX w) (wraparound w) x a
            \<Longrightarrow> axisNeighbor (worldMinX w) (worldMaxX w) (wraparound w) a x"
    using assms(1) by (auto simp: inWorld_def intro: axisNeighbor_sym)
  have Y: "axisNeighbor (worldMinY w) (worldMaxY w) (wraparound w) y b
            \<Longrightarrow> axisNeighbor (worldMinY w) (worldMaxY w) (wraparound w) b y"
    using assms(1) by (auto simp: inWorld_def intro: axisNeighbor_sym)
  from assms(2) X Y show ?thesis
    unfolding neighborCoords_set by blast
qed

lemma dead_outside:
  assumes halo: "haloInvariant w organisms" and valid: "entriesValid w organisms"
    and inw: "inWorld w x y" and none: "cell organisms x y = None"
    and nb: "(a, b) \<in> set (neighborCoords w x y)"
  shows "hasLife organisms a b = 0"
proof (rule ccontr)
  assume ne: "hasLife organisms a b \<noteq> 0"
  then obtain v where v: "cell organisms a b = Some v" "v \<noteq> 0"
    by (auto simp: hasLife_cell split: option.splits)
  with valid have "v = 1" unfolding entriesValid_def by blast
  with v have "hasLife organisms a b = 1" by (simp add: hasLife_cell)
  moreover have "(x, y) \<in> set (neighborCoords w a b)"
    using neighborCoords_sym [OF inw nb] .
  ultimately have "cell organisms x y \<noteq> None"
    using halo unfolding haloInvariant_def by blast
  with none show False by contradiction
qed

lemma neighborsAlive_sum:
  "countAt w organisms x y = sum_list (map (\<lambda>(a, b). hasLife organisms a b) (neighborCoords w x y))"
proof -
  obtain l r le re where X: "getNeighborsX w x = (l, r, le, re)"
    by (cases "getNeighborsX w x")
  obtain bo t be te where Y: "getNeighborsY w y = (bo, t, be, te)"
    by (cases "getNeighborsY w y")
  show ?thesis
    by (simp add: countAt_def neighborsAlive_def neighborCoords_def X Y)
qed

lemma sum_list_all_zero:
  fixes f :: "'a \<Rightarrow> int"
  shows "\<forall>p \<in> set xs. f p = 0 \<Longrightarrow> sum_list (map f xs) = 0"
  by (induction xs) auto

lemma countAt_outside:
  assumes "haloInvariant w organisms" "entriesValid w organisms" "inWorld w x y"
    "cell organisms x y = None"
  shows "countAt w organisms x y = 0"
proof -
  have "\<forall>p \<in> set (neighborCoords w x y). (case p of (a, b) \<Rightarrow> hasLife organisms a b) = 0"
    using dead_outside [OF assms] by auto
  then show ?thesis
    unfolding neighborsAlive_sum by (rule sum_list_all_zero)
qed

lemma resolveAxis_X:
  assumes "getNeighborsX w x = (l, r, le, re)"
  shows "resolveAxis x (worldMinX w) (worldMaxX w) (wraparound w)
           = (if le then Some l else None, if re then Some r else None)"
  using assms
  by (cases "x = worldMinX w"; cases "x = worldMaxX w"; cases "wraparound w")
     (auto simp: getNeighborsX_def resolveAxis_def)

lemma resolveAxis_Y:
  assumes "getNeighborsY w y = (bo, t, be, te)"
  shows "resolveAxis y (worldMinY w) (worldMaxY w) (wraparound w)
           = (if be then Some bo else None, if te then Some t else None)"
  using assms
  by (cases "y = worldMinY w"; cases "y = worldMaxY w"; cases "wraparound w")
     (auto simp: getNeighborsY_def resolveAxis_def)

lemma sum_spec_neighbors:
  fixes f :: "int64 \<times> int64 \<Rightarrow> int"
  shows "sum_list (map f (specNeighbors w x y)) = sum_list (map f (neighborCoords w x y))"
proof -
  obtain l r le re where X: "getNeighborsX w x = (l, r, le, re)"
    by (cases "getNeighborsX w x")
  obtain bo t be te where Y: "getNeighborsY w y = (bo, t, be, te)"
    by (cases "getNeighborsY w y")
  show ?thesis
    unfolding specNeighbors_def resolveAxis_X [OF X] resolveAxis_Y [OF Y]
    by (cases le; cases re; cases be; cases te) (simp_all add: neighborCoords_def X Y)
qed

lemma length_filter_sum:
  "int (length (filter P xs)) = sum_list (map (\<lambda>x. if P x then 1 else 0) xs)"
  by (induction xs) auto

lemma hasLife_stateOf:
  assumes "entriesValid w organisms"
  shows "hasLife organisms a b = (if stateOf organisms (a, b) then 1 else 0)"
proof (cases "cell organisms a b")
  case None
  then show ?thesis by (simp add: hasLife_cell stateOf_def)
next
  case (Some v)
  with assms have "v = 0 \<or> v = 1" unfolding entriesValid_def by blast
  with Some show ?thesis by (auto simp: hasLife_cell stateOf_def)
qed

lemma naive_count:
  assumes "entriesValid w organisms"
  shows "int (length (filter (stateOf organisms) (specNeighbors w x y))) = countAt w organisms x y"
proof -
  have "(\<lambda>(a, b). hasLife organisms a b) = (\<lambda>p. if stateOf organisms p then 1 else 0)"
    using hasLife_stateOf [OF assms] by (auto simp: fun_eq_iff)
  then show ?thesis
    by (simp add: length_filter_sum sum_spec_neighbors neighborsAlive_sum)
qed

lemma appTick_naive:
  assumes halo: "haloInvariant w organisms" and valid: "entriesValid w organisms"
    and r: "rangesOver organisms ord" and pos: "\<forall>b \<in> set birth. 0 < b"
  shows "{(x, y). hasLife (appTick w birth survive organisms ord) x y = 1}
           = naiveStep w birth survive organisms"
proof -
  have "hasLife (appTick w birth survive organisms ord) x y = 1
        \<longleftrightarrow> (x, y) \<in> naiveStep w birth survive organisms" for x y
  proof (cases "cell organisms x y")
    case None
    have tick: "hasLife (appTick w birth survive organisms ord) x y \<noteq> 1"
      by (simp add: appTick_alive [OF r] None)
    have "(x, y) \<notin> naiveStep w birth survive organisms"
    proof (cases "inWorld w x y")
      case True
      have "countAt w organisms x y = 0"
        using countAt_outside [OF halo valid True None] .
      moreover have "0 \<notin> set birth" using pos by auto
      ultimately show ?thesis
        by (simp add: naiveStep_def naive_count [OF valid] stateOf_def None)
    next
      case False
      then show ?thesis by (simp add: naiveStep_def)
    qed
    with tick show ?thesis by simp
  next
    case (Some a)
    with valid have "inWorld w x y" unfolding entriesValid_def by blast
    then show ?thesis
      by (simp add: appTick_alive [OF r] Some naiveStep_def naive_count [OF valid]
            stateOf_def appDecision_def)
  qed
  then show ?thesis by auto
qed

lemmas library_defs = strconvParseInt_def digitValue_def stringsTrimSpace_def isSpace_def
  isSpace2_def isSpace3_def

lemmas scanner_defs = scanLines_def rawLines_def scannerErr_def dropCR_def

lemma seedLife_example: "seedLife hardWorld seedText = Inr seedGeneration"
  by (simp add: seedText_def seedGeneration_def seedLife_def scanner_defs
        seedRecord_def library_defs hardWorld_def addOrganism_def getNeighborsX_def
        getNeighborsY_def setCell_def rowOf_def cell_def)

lemma rangesOver_example: "rangesOver seedGeneration seedOrder"
  by (simp add: rangesOver_def seedGeneration_def seedOrder_def)

lemma generation_example: "generation hardWorld seedGeneration"
  using seedLife_example by (rule generation.seeded)

lemma countAt_example: "countAt hardWorld seedGeneration 1 1 = 3"
  by (simp add: countAt_def neighborsAlive_def hardWorld_def getNeighborsX_def getNeighborsY_def
        seedGeneration_def hasLife_def)

text \<open>
  Claim C1. For every entry of the current map (a candidate, with its mark \<open>alive\<close>)
  and every order of iteration, the cell is alive in the next generation exactly if
  it is alive now and its count of live neighbours is among the survival counts, or
  it is not alive now and its count is among the birth counts. The loop of
  \<^verbatim>\<open>main.go\<close> decides with the survival counts 2 and 3 and the birth count 3, which
  are also the defaults of the configuration-file variant.
\<close>

theorem next_state_rule:
  assumes "rangesOver organisms ord" and "cell organisms x y = Some alive"
  shows "(hasLife (appTick w birth survive organisms ord) x y = 1 \<longleftrightarrow>
            (alive = 1 \<and> countAt w organisms x y \<in> set survive)
          \<or> (alive \<noteq> 1 \<and> countAt w organisms x y \<in> set birth))
       \<and> (hasLife (mainTick w organisms ord) x y = 1 \<longleftrightarrow>
            (alive = 1 \<and> countAt w organisms x y \<in> {2, 3})
          \<or> (alive \<noteq> 1 \<and> countAt w organisms x y \<in> {3}))
       \<and> appNewLifeSpawn appInit = [3] \<and> appExistingLifeRemain appInit = [2, 3]"
proof -
  have app: "hasLife (appTick w b s organisms ord) x y = 1 \<longleftrightarrow>
            (alive = 1 \<and> countAt w organisms x y \<in> set s)
          \<or> (alive \<noteq> 1 \<and> countAt w organisms x y \<in> set b)" for b s
    by (simp add: appTick_alive [OF assms(1)] assms(2) appDecision_def)
  show ?thesis
    using app [of birth survive] app [of "[3]" "[2, 3]"]
    by (simp add: mainTick_appTick appInit_def)
qed

theorem next_state_rule_witness:
  "rangesOver seedGeneration seedOrder \<and> cell seedGeneration 1 1 = Some 0
   \<and> countAt hardWorld seedGeneration 1 1 = 3
   \<and> hasLife (appTick hardWorld [3] [2, 3] seedGeneration seedOrder) 1 1 = 1
   \<and> hasLife (mainTick hardWorld seedGeneration seedOrder) 1 1 = 1"
proof -
  have c: "cell seedGeneration 1 1 = Some 0"
    by (simp add: cell_def rowOf_def seedGeneration_def)
  show ?thesis
    using next_state_rule [OF rangesOver_example c, of hardWorld "[3]" "[2, 3]"]
      rangesOver_example c countAt_example
    by simp
qed

text \<open>
  Claim C4. Every map that a run holds, after seeding and after every tick, satisfies
  the halo invariant. \<^verbatim>\<open>addOrganism\<close> marks its coordinate alive, leaves each
  neighbour that the resolver gives with the mark it had, gives it the mark 0 where
  it had no entry, and so keeps the invariant.
\<close>

theorem halo_invariant:
  "(generation w organisms \<longrightarrow> haloInvariant w organisms)
   \<and> hasLife (addOrganism w m x y) x y = 1
   \<and> (\<forall>(a, b) \<in> set (neighborCoords w x y).
         cell (addOrganism w m x y) a b
           = (if a = x \<and> b = y then Some 1
              else case cell m a b of None \<Rightarrow> Some 0 | Some v \<Rightarrow> Some v))
   \<and> (haloInvariant w m \<longrightarrow> haloInvariant w (addOrganism w m x y))"
proof (intro conjI impI ballI)
  assume "generation w organisms"
  then show "haloInvariant w organisms" using generation_invariants by blast
next
  show "hasLife (addOrganism w m x y) x y = 1"
    by (simp add: hasLife_addOrganism)
next
  fix p assume p: "p \<in> set (neighborCoords w x y)"
  obtain a b where ab: "p = (a, b)" by (cases p)
  from p ab have "a \<in> set (haloXs w x) \<and> b \<in> set (haloYs w y)"
    using neighborCoords_halo by blast
  then show "case p of (a, b) \<Rightarrow> cell (addOrganism w m x y) a b
           = (if a = x \<and> b = y then Some 1
              else case cell m a b of None \<Rightarrow> Some 0 | Some v \<Rightarrow> Some v)"
    by (auto simp: ab cell_addOrganism split: option.splits)
next
  assume "haloInvariant w m"
  then show "haloInvariant w (addOrganism w m x y)" by (rule haloInvariant_addOrganism)
qed

theorem halo_invariant_witness:
  "generation hardWorld seedGeneration \<and> haloInvariant hardWorld seedGeneration"
  using halo_invariant [of hardWorld seedGeneration] generation_example by simp

text \<open>
  Claim C3. For every map that a run holds, every order of iteration and birth counts
  that are all positive, the cells alive after a pass of the tick loop, which only
  visits the entries of the map, are exactly the cells that the naive step over all
  coordinates of the world makes alive; a coordinate without an entry is dead before
  and after the pass.
\<close>

theorem tick_refines_naive:
  assumes "generation w organisms" and "rangesOver organisms ord" and "\<forall>b \<in> set birth. 0 < b"
  shows "{(x, y). hasLife (appTick w birth survive organisms ord) x y = 1}
           = naiveStep w birth survive organisms
       \<and> {(x, y). hasLife (mainTick w organisms ord) x y = 1} = naiveStep w [3] [2, 3] organisms
       \<and> (\<forall>x y. cell organisms x y = None \<longrightarrow>
             hasLife organisms x y \<noteq> 1
           \<and> hasLife (appTick w birth survive organisms ord) x y \<noteq> 1
           \<and> hasLife (mainTick w organisms ord) x y \<noteq> 1)"
proof -
  from generation_invariants [OF assms(1)]
  have halo: "haloInvariant w organisms" and valid: "entriesValid w organisms" by simp_all
  have app: "{(x, y). hasLife (appTick w birth survive organisms ord) x y = 1}
           = naiveStep w birth survive organisms"
    using appTick_naive [OF halo valid assms(2,3)] .
  have main: "{(x, y). hasLife (mainTick w organisms ord) x y = 1} = naiveStep w [3] [2, 3] organisms"
    unfolding mainTick_appTick
    using appTick_naive [OF halo valid assms(2), of "[3]" "[2, 3]"] by simp
  have out: "cell organisms x y = None \<Longrightarrow>
             hasLife organisms x y \<noteq> 1
           \<and> hasLife (appTick w birth survive organisms ord) x y \<noteq> 1
           \<and> hasLife (mainTick w organisms ord) x y \<noteq> 1" for x y
  proof -
    assume none: "cell organisms x y = None"
    have "hasLife organisms x y \<noteq> 1" by (simp add: hasLife_cell none)
    moreover have "hasLife (appTick w b s organisms ord) x y \<noteq> 1" for b s
      by (simp add: appTick_alive [OF assms(2)] none)
    ultimately show ?thesis by (simp add: mainTick_appTick)
  qed
  from app main out show ?thesis by blast
qed

theorem tick_refines_naive_witness:
  "generation hardWorld seedGeneration \<and> rangesOver seedGeneration seedOrder
   \<and> {(x, y). hasLife (mainTick hardWorld seedGeneration seedOrder) x y = 1}
       = naiveStep hardWorld [3] [2, 3] seedGeneration"
  using tick_refines_naive [OF generation_example rangesOver_example, of "[3]" "[2, 3]"]
    generation_example rangesOver_example
  by simp

lemma concat_lines:
  "concat (map (\<lambda>y. if P y then f y else []) ys) = concat (map f (filter P ys))"
  by (induction ys) auto

lemma output_emitted:
  "outputOrganisms organisms ord
     = ''#Life 1.06'' @ [CHR 0x0A] @ concat (map coordLine (emitted organisms ord))"
proof -
  have "concat (map (\<lambda>x. concat (map (\<lambda>y. if hasLife organisms x y = 1 then coordLine (x, y) else [])
                                  (ysOf x))) xs)
      = concat (map coordLine (concat (map (\<lambda>x. map (Pair x)
                  (filter (\<lambda>y. hasLife organisms x y = 1) (ysOf x))) xs)))" for xs ysOf
    by (induction xs) (simp_all add: concat_lines [of _ "\<lambda>y. coordLine (x, y)" for x] comp_def)
  then show ?thesis
    by (simp add: outputOrganisms_def emitted_def)
qed

lemma strict_sort_key:
  assumes "distinct ks"
  shows "sorted_wrt (\<lambda>a b. sint a < sint b) (sort_key sint (ks :: int64 list))"
proof -
  have inj: "inj_on (sint :: int64 \<Rightarrow> int) A" for A
    by (auto simp: inj_on_def intro: signed_word_eqI)
  have "sorted (map sint (sort_key sint ks))" by simp
  moreover have "distinct (map sint (sort_key sint ks))"
    using assms by (simp add: distinct_map inj)
  ultimately have "sorted_wrt (<) (map sint (sort_key sint ks))"
    by (simp add: strict_sorted_iff)
  then show ?thesis by (simp add: sorted_wrt_map)
qed

lemma sorted_rows:
  assumes "sorted_wrt (\<lambda>a b. sint a < sint b) xs"
    and "\<And>x. sorted_wrt (\<lambda>a b. sint a < sint b) (ysOf x)"
  shows "sorted_wrt coordLess (concat (map (\<lambda>x. map (Pair x) (ysOf x)) xs))"
  using assms(1)
proof (induction xs)
  case Nil
  then show ?case by simp
next
  case (Cons x xs)
  have row: "sorted_wrt coordLess (map (Pair x) (ysOf x))"
    using assms(2) [of x] by (simp add: sorted_wrt_map coordLess_def)
  have later: "\<forall>c \<in> set (map (Pair x) (ysOf x)).
                 \<forall>d \<in> set (concat (map (\<lambda>x. map (Pair x) (ysOf x)) xs)). coordLess c d"
    using Cons.prems by (auto simp: coordLess_def)
  from Cons row later show ?case
    by (simp add: sorted_wrt_append)
qed

lemma rangedRow_distinct:
  assumes "rangesOver organisms ord"
  shows "distinct (map fst (rangedRow ord x))"
proof (cases "map_of ord x")
  case None
  then show ?thesis by (simp add: rangedRow_def)
next
  case (Some es)
  then have "(x, es) \<in> set ord" by (rule map_of_SomeD)
  with assms have "distinct (map fst es)" by (auto simp: rangesOver_def)
  with Some show ?thesis by (simp add: rangedRow_def)
qed

lemma emitted_sorted:
  assumes "rangesOver organisms ord"
  shows "sorted_wrt coordLess (emitted organisms ord)"
  unfolding emitted_def
proof (rule sorted_rows)
  show "sorted_wrt (\<lambda>a b. sint a < sint b) (getSortedCoordXs ord)"
    unfolding getSortedCoordXs_def
    using assms by (intro strict_sort_key) (simp add: rangesOver_def)
next
  fix x
  show "sorted_wrt (\<lambda>a b. sint a < sint b)
          (filter (\<lambda>y. hasLife organisms x y = 1) (getSortedCoordYs (rangedRow ord x)))"
    unfolding getSortedCoordYs_def
    by (intro sorted_wrt_filter strict_sort_key rangedRow_distinct [OF assms])
qed

lemma emitted_set:
  assumes "rangesOver organisms ord"
  shows "set (emitted organisms ord) = {(x, y). hasLife organisms x y = 1}"
proof -
  have "(x, y) \<in> set (emitted organisms ord) \<longleftrightarrow> hasLife organisms x y = 1" for x y
  proof
    assume "(x, y) \<in> set (emitted organisms ord)"
    then show "hasLife organisms x y = 1"
      by (auto simp: emitted_def)
  next
    assume alive: "hasLife organisms x y = 1"
    then have "cell organisms x y = Some 1" by (simp add: hasLife_alive)
    then obtain es where es: "(x, es) \<in> set ord" "(y, 1) \<in> set es"
      using rangesOver_entries [OF assms] by blast
    from assms have "distinct (map fst ord)" by (simp add: rangesOver_def)
    with es(1) have "map_of ord x = Some es" by simp
    then have "rangedRow ord x = es" by (simp add: rangedRow_def)
    with es alive show "(x, y) \<in> set (emitted organisms ord)"
      by (force simp: emitted_def getSortedCoordXs_def getSortedCoordYs_def)
  qed
  then show ?thesis by auto
qed

lemma coordLess_unique:
  assumes "sorted_wrt coordLess cs" "sorted_wrt coordLess ds" "set cs = set ds"
  shows "cs = ds"
  using assms
proof (induction cs arbitrary: ds)
  case Nil
  then show ?case by simp
next
  case (Cons c cs)
  have irrefl: "\<not> coordLess p p" for p by (simp add: coordLess_def)
  have asym: "coordLess p q \<Longrightarrow> \<not> coordLess q p" for p q by (auto simp: coordLess_def)
  from Cons.prems(3) obtain d ds' where ds: "ds = d # ds'" by (cases ds) auto
  from Cons.prems(1) have c_min: "\<forall>p \<in> set cs. coordLess c p" and cs: "sorted_wrt coordLess cs"
    by simp_all
  from Cons.prems(2) ds have d_min: "\<forall>p \<in> set ds'. coordLess d p" and ds': "sorted_wrt coordLess ds'"
    by simp_all
  have "c = d"
  proof (rule ccontr)
    assume ne: "c \<noteq> d"
    with Cons.prems(3) ds have "c \<in> set ds'" "d \<in> set cs" by auto
    with c_min d_min have "coordLess d c" "coordLess c d" by auto
    with asym show False by blast
  qed
  moreover have "c \<notin> set cs" using c_min irrefl by blast
  moreover have "d \<notin> set ds'" using d_min irrefl by blast
  ultimately have "set cs = set ds'" using Cons.prems(3) ds by auto
  with Cons.IH [OF cs ds'] \<open>c = d\<close> ds show ?case by simp
qed

lemma output_determined:
  assumes "rangesOver organisms ord" "rangesOver organisms' ord'"
    and "\<And>x y. hasLife organisms' x y = 1 \<longleftrightarrow> hasLife organisms x y = 1"
  shows "outputOrganisms organisms' ord' = outputOrganisms organisms ord"
proof -
  have "set (emitted organisms' ord') = set (emitted organisms ord)"
    unfolding emitted_set [OF assms(1)] emitted_set [OF assms(2)] using assms(3) by simp
  then have "emitted organisms' ord' = emitted organisms ord"
    by (intro coordLess_unique emitted_sorted assms(1,2))
  then show ?thesis by (simp add: output_emitted)
qed

lemma hasLife_addAll:
  "hasLife (addAll w cs Map.empty) x y = 1 \<longleftrightarrow> (x, y) \<in> set cs"
  by (simp add: hasLife_alive cell_addAll_alive)

lemma digit_chars: "d < 10 \<Longrightarrow> ''0123456789'' ! d \<in> set ''0123456789''"
  by (rule nth_mem) simp

lemma decimal_digits: "decimal n \<noteq> [] \<and> set (decimal n) \<subseteq> set ''0123456789''"
proof (induction n rule: decimal.induct)
  case (1 n)
  show ?case
  proof (cases "n < 10")
    case True
    then show ?thesis
      using digit_chars [of n] by (subst (1 2) decimal.simps) simp
  next
    case False
    have "n mod 10 < 10" by simp
    then have "''0123456789'' ! (n mod 10) \<in> set ''0123456789''" by (rule digit_chars)
    with False 1 show ?thesis
      by (subst (1 2) decimal.simps) simp
  qed
qed

lemma digitValue_digit: "d < 10 \<Longrightarrow> digitValue (''0123456789'' ! d) = Some d"
proof -
  assume "d < 10"
  then have "d = 0 \<or> d = 1 \<or> d = 2 \<or> d = 3 \<or> d = 4 \<or> d = 5 \<or> d = 6 \<or> d = 7
    \<or> d = 8 \<or> d = 9"
    by arith
  then show ?thesis by (elim disjE) (simp_all add: digitValue_def)
qed

lemma digit_value: "d < 10 \<Longrightarrow> of_char (''0123456789'' ! d) - 48 = d"
proof -
  assume d: "d < 10"
  from digitValue_digit [OF d] digit_chars [OF d] show ?thesis
    by (simp add: digitValue_def split: if_splits)
qed

lemma digitsValue_decimal: "digitsValue (decimal n) = n"
proof (induction n rule: decimal.induct)
  case (1 n)
  show ?case
  proof (cases "n < 10")
    case True
    then show ?thesis
      by (subst decimal.simps) (simp add: digitsValue_def digit_value)
  next
    case False
    have m: "n mod 10 < 10" by simp
    have "digitsValue (decimal (n div 10) @ [''0123456789'' ! (n mod 10)])
            = digitsValue (decimal (n div 10)) * 10 + n mod 10"
      using digit_value [OF m] by (simp add: digitsValue_def)
    also have "\<dots> = n" using 1 [OF False] by simp
    finally show ?thesis using False by (subst decimal.simps) simp
  qed
qed

lemma digit_not_zero: "d < 10 \<Longrightarrow> d \<noteq> 0 \<Longrightarrow> ''0123456789'' ! d \<noteq> CHR ''0''"
proof -
  assume "d < 10" "d \<noteq> 0"
  then have "d = 1 \<or> d = 2 \<or> d = 3 \<or> d = 4 \<or> d = 5 \<or> d = 6 \<or> d = 7 \<or> d = 8 \<or> d = 9"
    by arith
  then show ?thesis by (elim disjE) simp_all
qed

lemma decimal_no_leading_zero: "n \<noteq> 0 \<Longrightarrow> hd (decimal n) \<noteq> CHR ''0''"
proof (induction n rule: decimal.induct)
  case (1 n)
  show ?case
  proof (cases "n < 10")
    case True
    then show ?thesis
      using digit_not_zero [OF True "1.prems"] by (subst decimal.simps) simp
  next
    case False
    then have "n div 10 \<noteq> 0" by simp
    then have "hd (decimal (n div 10)) \<noteq> CHR ''0''" using 1(1) [OF False] by simp
    moreover have "decimal (n div 10) \<noteq> []" using decimal_digits by blast
    ultimately show ?thesis using False by (subst decimal.simps) simp
  qed
qed

lemma decimal_zero: "decimal 0 = ''0''"
  by (subst decimal.simps) simp

lemma decimal_shape: "length (decimal n) = 1 \<or> hd (decimal n) \<noteq> CHR ''0''"
  using decimal_no_leading_zero [of n] decimal_zero by (cases "n = 0") simp_all

lemma decimalNumeral_formatInt64: "decimalNumeral (formatInt64 x) (sint x)"
proof (cases "sint x < 0")
  case True
  let ?ds = "decimal (nat (- sint x))"
  have "formatInt64 x = (if sint x < 0 then CHR ''-'' # ?ds else ?ds)"
    using True by (simp add: formatInt64_def)
  moreover have "int (digitsValue ?ds) = \<bar>sint x\<bar>"
    using True by (simp add: digitsValue_decimal)
  ultimately show ?thesis
    unfolding decimalNumeral_def
    using decimal_digits [of "nat (- sint x)"] decimal_shape [of "nat (- sint x)"]
    by (intro exI [of _ ?ds]) simp
next
  case False
  let ?ds = "decimal (nat (sint x))"
  have "formatInt64 x = (if sint x < 0 then CHR ''-'' # ?ds else ?ds)"
    using False by (simp add: formatInt64_def)
  moreover have "int (digitsValue ?ds) = \<bar>sint x\<bar>"
    using False by (simp add: digitsValue_decimal)
  ultimately show ?thesis
    unfolding decimalNumeral_def
    using decimal_digits [of "nat (sint x)"] decimal_shape [of "nat (sint x)"]
    by (intro exI [of _ ?ds]) simp
qed

lemma lifeLine_coordLine: "lifeLine c (coordLine c)"
  unfolding lifeLine_def coordLine_def
  using decimalNumeral_formatInt64 by blast

lemma lifeLines_emitted: "list_all2 lifeLine cells (map coordLine cells)"
  by (simp add: list_all2_map2 list_all2_same lifeLine_coordLine)

text \<open>
  Claim C5. For every map and every order of iteration, the output is the line
  \<^verbatim>\<open>#Life 1.06\<close> followed by one line for each coordinate of a list that is strictly
  ascending in X and then in Y and that holds exactly the coordinates marked alive,
  so that no tracked-dead coordinate is written; the line of a coordinate is the
  decimal numeral of its x, a space, the decimal numeral of its y and a line feed.
  The output depends on the alive coordinates only: two maps with the same alive
  coordinates, in particular two maps built by the same insertions in different
  orders, give the same text.
\<close>

theorem serialization:
  assumes "rangesOver organisms ord"
  shows "(\<exists>cells lines.
            outputOrganisms organisms ord = ''#Life 1.06'' @ [CHR 0x0A] @ concat lines
          \<and> list_all2 lifeLine cells lines
          \<and> sorted_wrt coordLess cells
          \<and> set cells = {(x, y). hasLife organisms x y = 1})
       \<and> (\<forall>organisms' ord'.
             rangesOver organisms' ord'
             \<and> (\<forall>x y. hasLife organisms' x y = 1 \<longleftrightarrow> hasLife organisms x y = 1)
             \<longrightarrow> outputOrganisms organisms' ord' = outputOrganisms organisms ord)
       \<and> (\<forall>w cs cs' ord'.
             organisms = fold (\<lambda>(x, y) m. addOrganism w m x y) cs Map.empty
             \<and> set cs' = set cs
             \<and> rangesOver (fold (\<lambda>(x, y) m. addOrganism w m x y) cs' Map.empty) ord'
             \<longrightarrow> outputOrganisms (fold (\<lambda>(x, y) m. addOrganism w m x y) cs' Map.empty) ord'
                   = outputOrganisms organisms ord)"
proof (intro conjI allI impI)
  have "outputOrganisms organisms ord
          = ''#Life 1.06'' @ [CHR 0x0A] @ concat (map coordLine (emitted organisms ord))"
    by (rule output_emitted)
  moreover have "list_all2 lifeLine (emitted organisms ord) (map coordLine (emitted organisms ord))"
    by (rule lifeLines_emitted)
  ultimately show "\<exists>cells lines.
            outputOrganisms organisms ord = ''#Life 1.06'' @ [CHR 0x0A] @ concat lines
          \<and> list_all2 lifeLine cells lines
          \<and> sorted_wrt coordLess cells
          \<and> set cells = {(x, y). hasLife organisms x y = 1}"
    using emitted_sorted [OF assms] emitted_set [OF assms] by blast
next
  fix organisms' ord'
  assume "rangesOver organisms' ord'
             \<and> (\<forall>x y. hasLife organisms' x y = 1 \<longleftrightarrow> hasLife organisms x y = 1)"
  then show "outputOrganisms organisms' ord' = outputOrganisms organisms ord"
    using output_determined [OF assms] by blast
next
  fix w cs cs' ord'
  assume h: "organisms = fold (\<lambda>(x, y) m. addOrganism w m x y) cs Map.empty
             \<and> set cs' = set cs
             \<and> rangesOver (fold (\<lambda>(x, y) m. addOrganism w m x y) cs' Map.empty) ord'"
  then have o: "organisms = addAll w cs Map.empty"
    and r: "rangesOver (addAll w cs' Map.empty) ord'" and s: "set cs' = set cs"
    by (simp_all add: addAll_def)
  have "outputOrganisms (addAll w cs' Map.empty) ord' = outputOrganisms organisms ord"
    using output_determined [OF assms r] by (simp add: o hasLife_addAll s)
  then show "outputOrganisms (fold (\<lambda>(x, y) m. addOrganism w m x y) cs' Map.empty) ord'
                   = outputOrganisms organisms ord"
    by (simp add: addAll_def)
qed

lemma output_example:
  "outputOrganisms seedGeneration seedOrder
     = ''#Life 1.06'' @ [CHR 0x0A] @ ''0 0'' @ [CHR 0x0A] @ ''0 1'' @ [CHR 0x0A] @ ''1 0'' @ [CHR 0x0A]"
  by (simp add: outputOrganisms_def getSortedCoordXs_def getSortedCoordYs_def rangedRow_def
        hasLife_def coordLine_def formatInt64_def decimal.simps seedGeneration_def seedOrder_def)

lemma rangesOver_signed: "rangesOver signedExample signedOrder"
  by (simp add: rangesOver_def signedExample_def signedOrder_def)

lemma output_signed:
  "outputOrganisms signedExample signedOrder
     = ''#Life 1.06'' @ [CHR 0x0A] @ ''-1 -12'' @ [CHR 0x0A] @ ''-1 5'' @ [CHR 0x0A]
       @ ''1 2'' @ [CHR 0x0A]"
  by (simp add: outputOrganisms_def getSortedCoordXs_def getSortedCoordYs_def rangedRow_def
        hasLife_def coordLine_def formatInt64_def decimal.simps signedExample_def signedOrder_def)

theorem serialization_witness:
  "rangesOver seedGeneration seedOrder
   \<and> outputOrganisms seedGeneration seedOrder
       = ''#Life 1.06'' @ [CHR 0x0A] @ ''0 0'' @ [CHR 0x0A] @ ''0 1'' @ [CHR 0x0A]
         @ ''1 0'' @ [CHR 0x0A]
   \<and> rangesOver signedExample signedOrder
   \<and> outputOrganisms signedExample signedOrder
       = ''#Life 1.06'' @ [CHR 0x0A] @ ''-1 -12'' @ [CHR 0x0A] @ ''-1 5'' @ [CHR 0x0A]
         @ ''1 2'' @ [CHR 0x0A]
   \<and> (\<exists>cells lines.
          outputOrganisms signedExample signedOrder = ''#Life 1.06'' @ [CHR 0x0A] @ concat lines
        \<and> list_all2 lifeLine cells lines
        \<and> sorted_wrt coordLess cells
        \<and> set cells = {(x, y). hasLife signedExample x y = 1})
   \<and> (\<exists>cells lines.
          outputOrganisms seedGeneration seedOrder = ''#Life 1.06'' @ [CHR 0x0A] @ concat lines
        \<and> list_all2 lifeLine cells lines
        \<and> sorted_wrt coordLess cells
        \<and> set cells = {(x, y). hasLife seedGeneration x y = 1})"
  using serialization [OF rangesOver_signed] serialization [OF rangesOver_example]
    rangesOver_example rangesOver_signed output_example output_signed
  by blast

lemma output_header:
  "scanLines (outputOrganisms organisms ord) = ''#Life 1.06'' # rest
     \<Longrightarrow> seedLife w (outputOrganisms organisms ord) = Inl (FatalLeftParen (CHR ''#''))"
  by (simp add: seedLife_def seedRecord_def)

lemma stringsSplit_nonempty: "stringsSplit s sep \<noteq> []"
  by (induction s) (auto split: list.splits)

lemma stringsSplit_append:
  "sep \<notin> set a \<Longrightarrow> stringsSplit (a @ sep # b) sep = a # stringsSplit b sep"
  by (induction a) (auto split: list.splits)

lemma rawLines_first:
  assumes "CHR 0x0A \<notin> set a"
  shows "\<exists>rest. rawLines (a @ CHR 0x0A # b) = a # rest"
proof -
  have s: "stringsSplit (a @ CHR 0x0A # b) (CHR 0x0A) = a # stringsSplit b (CHR 0x0A)"
    using assms by (rule stringsSplit_append)
  obtain p ps where ps: "stringsSplit b (CHR 0x0A) = p # ps"
    using stringsSplit_nonempty [of b "CHR 0x0A"] by (cases "stringsSplit b (CHR 0x0A)") auto
  show ?thesis
    unfolding rawLines_def s ps Let_def
    by (cases "last (a # p # ps) = []") (auto simp: butlast_def)
qed

lemma scanLines_first:
  assumes "CHR 0x0A \<notin> set a" "a \<noteq> []" "last a \<noteq> CHR 0x0D" "length a < 65536"
  shows "\<exists>rest. scanLines (a @ CHR 0x0A # b) = a # rest"
proof -
  from rawLines_first [OF assms(1)] obtain rest where r: "rawLines (a @ CHR 0x0A # b) = a # rest"
    by blast
  have d: "dropCR a = a" using assms(2,3) by (simp add: dropCR_def)
  show ?thesis by (simp add: scanLines_def r d assms(4))
qed

lemma seedLife_output:
  "seedLife w (outputOrganisms organisms ord) = Inl (FatalLeftParen (CHR ''#''))"
proof -
  have "\<exists>rest. scanLines (outputOrganisms organisms ord) = ''#Life 1.06'' # rest"
    unfolding outputOrganisms_def
    using scanLines_first [of "''#Life 1.06''"] by simp
  then show ?thesis using output_header by blast
qed



lemma parseUint_append:
  "parseUint acc (a @ b) = (case parseUint acc a of None \<Rightarrow> None | Some v \<Rightarrow> parseUint v b)"
  by (induction a arbitrary: acc) (auto split: option.splits)


lemma parseUint_decimal: "parseUint 0 (decimal n) = Some n"
proof (induction n rule: decimal.induct)
  case (1 n)
  show ?case
  proof (cases "n < 10")
    case True
    then show ?thesis
      by (subst decimal.simps) (simp add: digitValue_digit)
  next
    case False
    have "parseUint 0 (decimal (n div 10) @ [''0123456789'' ! (n mod 10)]) = Some n"
      using 1 [OF False] by (simp add: parseUint_append digitValue_digit)
    with False show ?thesis by (subst decimal.simps) simp
  qed
qed

lemma strconvParseInt_minus:
  assumes "n \<le> 2 ^ 63"
  shows "strconvParseInt (CHR ''-'' # decimal n) = Some (- word_of_nat n)"
proof -
  have ne: "decimal n \<noteq> []" using decimal_digits by blast
  have "\<not> 2 ^ 63 < n" using assms by simp
  then show ?thesis
    by (simp add: strconvParseInt_def parseUint_decimal ne)
qed

lemma strconvParseInt_plain:
  assumes "n < 2 ^ 63"
  shows "strconvParseInt (decimal n) = Some (word_of_nat n)"
proof -
  obtain c cs where d: "decimal n = c # cs" using decimal_digits [of n] by (cases "decimal n") auto
  with decimal_digits [of n] have c: "c \<in> set ''0123456789''" by auto
  then have sign: "c \<noteq> CHR ''+''" "c \<noteq> CHR ''-''" by auto
  have p: "parseUint 0 (c # cs) = Some n" using parseUint_decimal [of n] d by simp
  have "\<not> 2 ^ 63 \<le> n" using assms by simp
  then show ?thesis
    unfolding d strconvParseInt_def
    by (simp add: sign p del: parseUint.simps)
qed

lemma strconvParseInt_formatInt64: "strconvParseInt (formatInt64 x) = Some x"
proof (cases "sint x < 0")
  case True
  have le: "nat (- sint x) \<le> 2 ^ 63" using sint_ge [of x] by simp
  have "(word_of_nat (nat (- sint x)) :: int64) = word_of_int (- sint x)"
    using True by simp
  then have "- (word_of_nat (nat (- sint x)) :: int64) = x" by simp
  then show ?thesis
    using True strconvParseInt_minus [OF le] by (simp add: formatInt64_def)
next
  case False
  have lt: "nat (sint x) < 2 ^ 63" using sint_lt [of x] False by simp
  have "(word_of_nat (nat (sint x)) :: int64) = x"
    using False by simp
  then show ?thesis
    using False strconvParseInt_plain [OF lt] by (simp add: formatInt64_def)
qed

lemma formatInt64_chars:
  "formatInt64 x \<noteq> [] \<and> set (formatInt64 x) \<subseteq> set ''-0123456789''"
proof -
  have sub: "set ''0123456789'' \<subseteq> set ''-0123456789''"
    by (rule set_subset_Cons)
  show ?thesis
  proof (cases "sint x < 0")
    case True
    have "set (decimal (nat (- sint x))) \<subseteq> set ''-0123456789''"
      using decimal_digits [of "nat (- sint x)"] sub by blast
    with True show ?thesis by (simp add: formatInt64_def)
  next
    case False
    have "set (decimal (nat (sint x))) \<subseteq> set ''-0123456789''"
      using decimal_digits [of "nat (sint x)"] sub by blast
    with False decimal_digits [of "nat (sint x)"] show ?thesis by (simp add: formatInt64_def)
  qed
qed

lemma formatInt64_not:
  assumes "c \<notin> set ''-0123456789''"
  shows "c \<notin> set (formatInt64 x)"
  using assms formatInt64_chars [of x] by blast

lemma formatInt64_hd_last:
  assumes "c \<notin> set ''-0123456789''"
  shows "hd (formatInt64 x) \<noteq> c" "last (formatInt64 x) \<noteq> c"
  using formatInt64_not [OF assms, of x] formatInt64_chars [of x]
  by (metis hd_in_set, metis last_in_set)

lemma stringsSplit_none: "sep \<notin> set s \<Longrightarrow> stringsSplit s sep = [s]"
  by (induction s) auto

lemma numeric_cases:
  assumes "c \<in> set ''-0123456789''"
  shows "c = CHR ''-'' \<or> c = CHR ''0'' \<or> c = CHR ''1'' \<or> c = CHR ''2'' \<or> c = CHR ''3''
      \<or> c = CHR ''4'' \<or> c = CHR ''5'' \<or> c = CHR ''6'' \<or> c = CHR ''7'' \<or> c = CHR ''8''
      \<or> c = CHR ''9''"
  using assms by simp

lemma numeric_not_space:
  assumes "c \<in> set ''-0123456789''"
  shows "\<not> isSpace c"
  using numeric_cases [OF assms] by (elim disjE) (simp_all add: isSpace_def)

lemma numeric_not_space2:
  assumes "c \<in> set ''-0123456789''"
  shows "\<not> isSpace2 c d" "\<not> isSpace2 d c"
  using numeric_cases [OF assms] by (elim disjE; simp add: isSpace2_def)+

lemma numeric_not_space3:
  assumes "c \<in> set ''-0123456789''"
  shows "\<not> isSpace3 c d e" "\<not> isSpace3 e d c"
  using numeric_cases [OF assms] by (elim disjE; simp add: isSpace3_def)+

lemma trimLeft_numeric:
  assumes "c \<in> set ''-0123456789''"
  shows "trimLeft (c # s) = c # s"
proof (cases s)
  case Nil
  then show ?thesis by (simp add: numeric_not_space [OF assms])
next
  case (Cons d s')
  then show ?thesis
    by (cases s')
      (simp_all add: numeric_not_space [OF assms] numeric_not_space2 [OF assms]
         numeric_not_space3 [OF assms])
qed

lemma trimRightRev_numeric:
  assumes "c \<in> set ''-0123456789''"
  shows "trimRightRev (c # s) = c # s"
proof (cases s)
  case Nil
  then show ?thesis by (simp add: numeric_not_space [OF assms])
next
  case (Cons d s')
  then show ?thesis
    by (cases s')
      (simp_all add: numeric_not_space [OF assms] numeric_not_space2 [OF assms]
         numeric_not_space3 [OF assms])
qed

lemma stringsTrimSpace_id:
  assumes "s \<noteq> []" "hd s \<in> set ''-0123456789''" "last s \<in> set ''-0123456789''"
  shows "stringsTrimSpace s = s"
proof -
  have front: "trimLeft s = s"
    using assms(1) trimLeft_numeric [OF assms(2), of "tl s"] by simp
  have "rev (butlast s @ [last s]) = last s # rev (butlast s)" by simp
  then have r: "rev s = last s # rev (butlast s)"
    using assms(1) by simp
  have "trimRightRev (rev s) = rev s"
    unfolding r by (rule trimRightRev_numeric [OF assms(3)])
  then show ?thesis by (simp add: stringsTrimSpace_def front)
qed

lemma stringsTrimSpace_formatInt64: "stringsTrimSpace (formatInt64 x) = formatInt64 x"
proof (rule stringsTrimSpace_id)
  show "formatInt64 x \<noteq> []" using formatInt64_chars by blast
  show "hd (formatInt64 x) \<in> set ''-0123456789''"
    using formatInt64_chars [of x] hd_in_set [of "formatInt64 x"] by blast
  show "last (formatInt64 x) \<in> set ''-0123456789''"
    using formatInt64_chars [of x] last_in_set [of "formatInt64 x"] by blast
qed

lemma seedRecord_recordText:
  assumes "inWorld w x y"
  shows "seedRecord w organisms (recordText (x, y)) = Inr (addOrganism w organisms x y)"
proof -
  define fx where "fx = formatInt64 x"
  define fy where "fy = formatInt64 y"
  define line where "line = CHR ''('' # fx @ CHR '','' # fy @ [CHR '')'']"
  have l: "recordText (x, y) = line" by (simp add: recordText_def line_def fx_def fy_def)
  have len: "length line = length fx + length fy + 3" by (simp add: line_def)
  have first: "line ! 0 = CHR ''(''" by (simp add: line_def)
  have idx: "nat (int (length line) - 1) = length line - 1" by arith
  have ne: "line \<noteq> []" by (simp add: line_def)
  have "last line = CHR '')''" by (simp add: line_def)
  then have lst: "line ! nat (int (length line) - 1) = CHR '')''"
    unfolding idx using last_conv_nth [OF ne] by simp
  have "take (length fx + length fy + 1) (fx @ CHR '','' # fy @ [CHR '')'']) = fx @ CHR '','' # fy"
    by simp
  then have mid: "take (nat (int (length line) - 1) - Suc 0) (drop (Suc 0) line) = fx @ CHR '','' # fy"
    unfolding idx by (simp add: line_def)
  have nocomma: "CHR '','' \<notin> set fx" "CHR '','' \<notin> set fy"
    unfolding fx_def fy_def by (rule formatInt64_not, simp)+
  have split: "stringsSplit (fx @ CHR '','' # fy) (CHR '','') = [fx, fy]"
    using nocomma by (simp add: stringsSplit_append stringsSplit_none)
  have px: "strconvParseInt (stringsTrimSpace fx) = Some x"
    and py: "strconvParseInt (stringsTrimSpace fy) = Some y"
    by (simp_all add: fx_def fy_def stringsTrimSpace_formatInt64 strconvParseInt_formatInt64)
  have pos: "\<not> int (length line) - 1 < 1" "length line \<noteq> 0" using len by simp_all
  show ?thesis
    unfolding l seedRecord_def Let_def
    using assms first lst pos
    by (simp add: mid split px py inWorld_def not_less del: stringsSplit.simps)
qed

lemma stringsSplit_lines:
  assumes "\<forall>l \<in> set ls. CHR 0x0A \<notin> set l"
  shows "stringsSplit (concat (map (\<lambda>l. l @ [CHR 0x0A]) ls)) (CHR 0x0A) = ls @ [[]]"
  using assms
proof (induction ls)
  case Nil
  then show ?case by simp
next
  case (Cons l ls)
  then have "CHR 0x0A \<notin> set l" by simp
  then have "stringsSplit (l @ CHR 0x0A # concat (map (\<lambda>l. l @ [CHR 0x0A]) ls)) (CHR 0x0A)
      = l # stringsSplit (concat (map (\<lambda>l. l @ [CHR 0x0A]) ls)) (CHR 0x0A)"
    by (rule stringsSplit_append)
  with Cons show ?case by simp
qed

lemma rawLines_lines:
  assumes "\<forall>l \<in> set ls. CHR 0x0A \<notin> set l"
  shows "rawLines (concat (map (\<lambda>l. l @ [CHR 0x0A]) ls)) = ls"
  using stringsSplit_lines [OF assms] by (simp add: rawLines_def)

lemma scanLines_lines:
  assumes "\<forall>l \<in> set ls. CHR 0x0A \<notin> set l \<and> dropCR l = l \<and> length l < 65536"
  shows "scanLines (concat (map (\<lambda>l. l @ [CHR 0x0A]) ls)) = ls"
    and "\<not> scannerErr (concat (map (\<lambda>l. l @ [CHR 0x0A]) ls))"
proof -
  have raw: "rawLines (concat (map (\<lambda>l. l @ [CHR 0x0A]) ls)) = ls"
    using assms by (intro rawLines_lines) simp
  have all: "takeWhile (\<lambda>raw. length raw < 65536) ls = ls"
    using assms by (simp add: takeWhile_eq_all_conv)
  have "map dropCR ls = ls" using assms by (simp add: map_idI)
  then show "scanLines (concat (map (\<lambda>l. l @ [CHR 0x0A]) ls)) = ls"
    by (simp add: scanLines_def raw all)
  show "\<not> scannerErr (concat (map (\<lambda>l. l @ [CHR 0x0A]) ls))"
    using assms by (auto simp: scannerErr_def raw list_ex_iff)
qed

lemma dropCR_id: "s \<noteq> [] \<Longrightarrow> last s \<noteq> CHR 0x0D \<Longrightarrow> dropCR s = s"
  by (simp add: dropCR_def)

lemma decimal_length: "n < 10 ^ k \<Longrightarrow> 0 < k \<Longrightarrow> length (decimal n) \<le> k"
proof (induction n arbitrary: k rule: decimal.induct)
  case (1 n)
  show ?case
  proof (cases "n < 10")
    case True
    then show ?thesis using "1.prems" by (subst decimal.simps) simp
  next
    case False
    then have "k \<noteq> 1" using "1.prems" by auto
    then obtain j where k: "k = Suc j" "0 < j" using "1.prems"(2) by (cases k) auto
    have "n div 10 < 10 ^ j" using "1.prems"(1) by (simp add: k less_mult_imp_div_less)
    from "1.IH" [OF False this k(2)] show ?thesis
      using False by (subst decimal.simps) (simp add: k)
  qed
qed

lemma formatInt64_length: "length (formatInt64 x) \<le> 20"
proof -
  have "sint x < 2 ^ 63" "- (2 ^ 63) \<le> sint x"
    using sint_lt [of x] sint_ge [of x] by simp_all
  then have "nat (sint x) < 10 ^ 19" "nat (- sint x) < 10 ^ 19" by simp_all
  then have "length (decimal (nat (sint x))) \<le> 19" "length (decimal (nat (- sint x))) \<le> 19"
    by (simp_all add: decimal_length)
  then show ?thesis by (simp add: formatInt64_def)
qed

lemma lineText_plain:
  "CHR 0x0A \<notin> set (lineText c) \<and> dropCR (lineText c) = lineText c \<and> length (lineText c) < 65536"
proof -
  have nl: "CHR 0x0A \<notin> set (formatInt64 x)" for x by (rule formatInt64_not) simp
  have "last (formatInt64 (snd c)) \<noteq> CHR 0x0D"
    by (rule formatInt64_hd_last(2)) simp
  moreover have "formatInt64 (snd c) \<noteq> []" using formatInt64_chars by blast
  ultimately have "dropCR (lineText c) = lineText c"
    by (intro dropCR_id) (simp_all add: lineText_def)
  moreover have "length (lineText c) < 65536"
    using formatInt64_length [of "fst c"] formatInt64_length [of "snd c"]
    by (simp add: lineText_def)
  ultimately show ?thesis using nl by (simp add: lineText_def)
qed

lemma recordText_plain:
  "CHR 0x0A \<notin> set (recordText c) \<and> dropCR (recordText c) = recordText c
     \<and> length (recordText c) < 65536"
proof -
  have nl: "CHR 0x0A \<notin> set (formatInt64 x)" for x by (rule formatInt64_not) simp
  have "dropCR (recordText c) = recordText c"
    by (intro dropCR_id) (simp_all add: recordText_def)
  moreover have "length (recordText c) < 65536"
    using formatInt64_length [of "fst c"] formatInt64_length [of "snd c"]
    by (simp add: recordText_def)
  ultimately show ?thesis using nl by (simp add: recordText_def)
qed

lemma recordOfLine_lineText: "recordOfLine (lineText c) = recordText c"
proof -
  have sp: "CHR '' '' \<notin> set (formatInt64 x)" for x by (rule formatInt64_not) simp
  have "map (\<lambda>c. if c = CHR '' '' then CHR '','' else c) (formatInt64 x) = formatInt64 x" for x
    using sp [of x] by (intro map_idI) auto
  then show ?thesis by (simp add: recordOfLine_def lineText_def recordText_def)
qed

lemma output_lines:
  "outputOrganisms organisms ord
     = concat (map (\<lambda>l. l @ [CHR 0x0A]) (''#Life 1.06'' # map lineText (emitted organisms ord)))"
proof -
  have "concat (map coordLine cs) = concat (map (\<lambda>l. l @ [CHR 0x0A]) (map lineText cs))" for cs
    by (induction cs) (simp_all add: coordLine_def lineText_def)
  then show ?thesis by (simp add: output_emitted)
qed

lemma scanLines_output:
  "scanLines (outputOrganisms organisms ord) = ''#Life 1.06'' # map lineText (emitted organisms ord)"
  unfolding output_lines
proof (rule scanLines_lines(1), rule ballI)
  fix l assume "l \<in> set (''#Life 1.06'' # map lineText (emitted organisms ord))"
  then consider "l = ''#Life 1.06''" | c where "l = lineText c" by auto
  then show "CHR 0x0A \<notin> set l \<and> dropCR l = l \<and> length l < 65536"
  proof cases
    case 1
    then show ?thesis by (simp add: dropCR_def)
  next
    case 2
    then show ?thesis using lineText_plain by simp
  qed
qed

lemma seedInputOf_output:
  "scanLines (seedInputOf (outputOrganisms organisms ord)) = map recordText (emitted organisms ord)"
  "\<not> scannerErr (seedInputOf (outputOrganisms organisms ord))"
proof -
  have "seedInputOf (outputOrganisms organisms ord)
      = concat (map (\<lambda>l. l @ [CHR 0x0A]) (map recordText (emitted organisms ord)))"
    by (simp add: seedInputOf_def scanLines_output comp_def recordOfLine_lineText)
  then show "scanLines (seedInputOf (outputOrganisms organisms ord))
      = map recordText (emitted organisms ord)"
    and "\<not> scannerErr (seedInputOf (outputOrganisms organisms ord))"
    using scanLines_lines [of "map recordText (emitted organisms ord)"]
    by (simp_all add: recordText_plain)
qed

lemma seedLines_records:
  assumes "\<forall>(x, y) \<in> set cs. inWorld w x y"
  shows "seedLines w organisms (map recordText cs) = Inr (addAll w cs organisms)"
  using assms
proof (induction cs arbitrary: organisms)
  case Nil
  then show ?case by simp
next
  case (Cons c cs)
  obtain x y where c: "c = (x, y)" by (cases c)
  from Cons.prems have xy: "inWorld w x y" and rest: "\<forall>(x, y) \<in> set cs. inWorld w x y"
    by (simp_all add: c)
  show ?case
    by (simp add: c seedRecord_recordText [OF xy] Cons.IH [OF rest])
qed

lemma reseed:
  assumes "generation w organisms" "rangesOver organisms ord"
  shows "seedLife w (seedInputOf (outputOrganisms organisms ord))
           = Inr (addAll w (emitted organisms ord) Map.empty)"
proof -
  from generation_invariants [OF assms(1)] have valid: "entriesValid w organisms" by simp
  have "\<forall>(x, y) \<in> set (emitted organisms ord). inWorld w x y"
    using valid unfolding emitted_set [OF assms(2)] entriesValid_def
    by (auto simp: hasLife_alive)
  then show ?thesis
    by (simp add: seedLife_def seedInputOf_output seedLines_records)
qed

text \<open>
  Claim C9, as amended. The output of the program is not accepted as its seed input,
  and a run with 0 ticks is refused: \<^verbatim>\<open>seedLife\<close> stops at the header line
  \<^verbatim>\<open>#Life 1.06\<close> with the fatal error on the left parenthesis, \<^verbatim>\<open>bootstrap\<close> stops
  at 0 ticks with the fatal error on the number of ticks, and so a run that is given
  a serialization as its input ends in a failure. The round trip holds through the
  syntax of seed records: for every map that a run holds, the serialization with
  its header dropped and each line \<^verbatim>\<open>x y\<close> written as \<^verbatim>\<open>(x,y)\<close> is accepted by
  \<^verbatim>\<open>seedLife\<close>, and the map seeded from it has the same alive coordinates and
  therefore the same serialization, byte for byte.
\<close>

theorem round_trip_of_records:
  assumes "generation w organisms" and "rangesOver organisms ord"
  shows "seedLife w (outputOrganisms organisms ord) = Inl (FatalLeftParen (CHR ''#''))
       \<and> bootstrap (f\<lparr>flagShowHelp := False, flagTicks := 0\<rparr>) = Inl (FatalTicks 0)
       \<and> (\<exists>e. mainGo f (outputOrganisms organisms ord) tickOrders outOrder = Inl e)
       \<and> (\<exists>organisms'.
             seedLife w (seedInputOf (outputOrganisms organisms ord)) = Inr organisms'
           \<and> (\<forall>x y. hasLife organisms' x y = 1 \<longleftrightarrow> hasLife organisms x y = 1)
           \<and> (\<forall>ord'. rangesOver organisms' ord' \<longrightarrow>
                 outputOrganisms organisms' ord' = outputOrganisms organisms ord))"
proof (intro conjI)
  show "seedLife w (outputOrganisms organisms ord) = Inl (FatalLeftParen (CHR ''#''))"
    by (rule seedLife_output)
  show "bootstrap (f\<lparr>flagShowHelp := False, flagTicks := 0\<rparr>) = Inl (FatalTicks 0)"
    by (simp add: bootstrap_def)
  show "\<exists>e. mainGo f (outputOrganisms organisms ord) tickOrders outOrder = Inl e"
    by (cases "bootstrap f") (simp_all add: mainGo_def seedLife_output)
  let ?m = "addAll w (emitted organisms ord) Map.empty"
  have alive: "hasLife ?m x y = 1 \<longleftrightarrow> hasLife organisms x y = 1" for x y
    by (simp add: hasLife_addAll emitted_set [OF assms(2)])
  have "outputOrganisms ?m ord' = outputOrganisms organisms ord" if "rangesOver ?m ord'" for ord'
    using output_determined [OF assms(2) that] alive by simp
  with alive reseed [OF assms]
  show "\<exists>organisms'.
             seedLife w (seedInputOf (outputOrganisms organisms ord)) = Inr organisms'
           \<and> (\<forall>x y. hasLife organisms' x y = 1 \<longleftrightarrow> hasLife organisms x y = 1)
           \<and> (\<forall>ord'. rangesOver organisms' ord' \<longrightarrow>
                 outputOrganisms organisms' ord' = outputOrganisms organisms ord)"
    by (intro exI [of _ ?m]) simp
qed

lemma seedInput_example:
  "seedInputOf (outputOrganisms seedGeneration seedOrder)
     = ''(0,0)'' @ [CHR 0x0A] @ ''(0,1)'' @ [CHR 0x0A] @ ''(1,0)'' @ [CHR 0x0A]"
  by (simp add: output_example seedInputOf_def scanner_defs recordOfLine_def)

theorem round_trip_of_records_witness:
  "generation hardWorld seedGeneration \<and> rangesOver seedGeneration seedOrder
   \<and> seedInputOf (outputOrganisms seedGeneration seedOrder)
       = ''(0,0)'' @ [CHR 0x0A] @ ''(0,1)'' @ [CHR 0x0A] @ ''(1,0)'' @ [CHR 0x0A]
   \<and> seedLife hardWorld (outputOrganisms seedGeneration seedOrder) = Inl (FatalLeftParen (CHR ''#''))
   \<and> (\<exists>organisms'.
         seedLife hardWorld (seedInputOf (outputOrganisms seedGeneration seedOrder)) = Inr organisms'
       \<and> (\<forall>ord'. rangesOver organisms' ord' \<longrightarrow>
             outputOrganisms organisms' ord' = outputOrganisms seedGeneration seedOrder))"
  using round_trip_of_records [OF generation_example rangesOver_example]
    generation_example rangesOver_example seedInput_example
  by blast

text \<open>
  The round trip that claim C9 states fails on the generation seeded from three
  cells: with 0 ticks the run is refused, and with the default 10 ticks seeding
  refuses the header line.
\<close>

theorem round_trip_counterexample:
  "mainGo (mainDefaults\<lparr>flagTicks := 0\<rparr>) (outputOrganisms seedGeneration seedOrder) [] []
     = Inl (FatalTicks 0)
   \<and> mainGo (mainDefaults\<lparr>flagTicks := 0\<rparr>) (outputOrganisms seedGeneration seedOrder) [] []
     \<noteq> Inr (outputOrganisms seedGeneration seedOrder)
   \<and> mainGo mainDefaults (outputOrganisms seedGeneration seedOrder) [] []
     = Inl (FatalLeftParen (CHR ''#''))"
proof -
  have b: "bootstrap mainDefaults =
     Inr \<lparr>worldMinX = - 9223372036854775808, worldMaxX = 9223372036854775807,
          worldMinY = - 9223372036854775808, worldMaxY = 9223372036854775807,
          wraparound = True\<rparr>"
    by (simp add: bootstrap_def mainDefaults_def parseWorldDimensions_def library_defs)
  have "mainGo (mainDefaults\<lparr>flagTicks := 0\<rparr>) (outputOrganisms seedGeneration seedOrder) [] []
     = Inl (FatalTicks 0)"
    by (simp add: mainGo_def bootstrap_def mainDefaults_def)
  moreover have "mainGo mainDefaults (outputOrganisms seedGeneration seedOrder) [] []
     = Inl (FatalLeftParen (CHR ''#''))"
    by (simp add: mainGo_def b seedLife_output)
  ultimately show ?thesis by simp
qed

text \<open>
  Claim C6. With no flag given, \<^verbatim>\<open>main.go\<close> runs with wraparound on. The
  configuration-file variant does not: \<^verbatim>\<open>processConfigurationCli\<close> turns
  \<^verbatim>\<open>appWraparound\<close> off exactly when \<^verbatim>\<open>-nowrap\<close> is absent, so that the column at the
  minimum has no left neighbour, and leaves it on when \<^verbatim>\<open>-nowrap\<close> is given.
\<close>

theorem default_wraparound_inverted:
  "bootstrap mainDefaults =
     Inr \<lparr>worldMinX = - 9223372036854775808, worldMaxX = 9223372036854775807,
          worldMinY = - 9223372036854775808, worldMaxY = 9223372036854775807,
          wraparound = True\<rparr>
   \<and> appSetup appFlagDefaults None = Inr (appInit\<lparr>appWraparound := False\<rparr>)
   \<and> wraparound (appWorld (appInit\<lparr>appWraparound := False\<rparr>)) = False
   \<and> getNeighborsX (appWorld (appInit\<lparr>appWraparound := False\<rparr>)) (- 9223372036854775808)
       = (0, - 9223372036854775807, False, True)
   \<and> appSetup (appFlagDefaults\<lparr>flagDisableWraparound := True\<rparr>) None = Inr appInit
   \<and> wraparound (appWorld appInit) = True"
proof (intro conjI)
  show "bootstrap mainDefaults =
     Inr \<lparr>worldMinX = - 9223372036854775808, worldMaxX = 9223372036854775807,
          worldMinY = - 9223372036854775808, worldMaxY = 9223372036854775807,
          wraparound = True\<rparr>"
    by (simp add: bootstrap_def mainDefaults_def parseWorldDimensions_def library_defs)
  show "appSetup appFlagDefaults None = Inr (appInit\<lparr>appWraparound := False\<rparr>)"
    by (simp add: appSetup_def processConfigurationFile_def appBootstrap_def
          processConfigurationCli_def appFlagDefaults_def appInit_def)
  show "wraparound (appWorld (appInit\<lparr>appWraparound := False\<rparr>)) = False"
    by (simp add: appWorld_def)
  show "getNeighborsX (appWorld (appInit\<lparr>appWraparound := False\<rparr>)) (- 9223372036854775808)
       = (0, - 9223372036854775807, False, True)"
    by (simp add: appWorld_def appInit_def getNeighborsX_def)
  show "appSetup (appFlagDefaults\<lparr>flagDisableWraparound := True\<rparr>) None = Inr appInit"
    by (simp add: appSetup_def processConfigurationFile_def appBootstrap_def
          processConfigurationCli_def appFlagDefaults_def appInit_def)
  show "wraparound (appWorld appInit) = True"
    by (simp add: appWorld_def appInit_def)
qed

text \<open>
  Claim C7. \<^verbatim>\<open>bootstrap\<close> of \<^verbatim>\<open>main.go\<close> accepts a world whose minimum equals or
  exceeds its maximum, and seeding goes on in it, where \<^verbatim>\<open>bootstrap\<close> of the
  configuration-file variant stops with a fatal error.
\<close>

theorem world_bounds_unchecked:
  "bootstrap (mainDefaults\<lparr>flagWorldDimensions := ''5:5;0:10''\<rparr>)
     = Inr \<lparr>worldMinX = 5, worldMaxX = 5, worldMinY = 0, worldMaxY = 10, wraparound = True\<rparr>
   \<and> seedLife \<lparr>worldMinX = 5, worldMaxX = 5, worldMinY = 0, worldMaxY = 10, wraparound = True\<rparr>
         ''(5,1)''
     = Inr (addOrganism
              \<lparr>worldMinX = 5, worldMaxX = 5, worldMinY = 0, worldMaxY = 10, wraparound = True\<rparr>
              Map.empty 5 1)
   \<and> bootstrap (mainDefaults\<lparr>flagWorldDimensions := ''7:3;0:10''\<rparr>)
     = Inr \<lparr>worldMinX = 7, worldMaxX = 3, worldMinY = 0, worldMaxY = 10, wraparound = True\<rparr>
   \<and> appSetup (appFlagDefaults\<lparr>flagWorldDimensions := ''5:5;0:10''\<rparr>) None
     = Inl (FatalWorldX 5 5)
   \<and> appSetup (appFlagDefaults\<lparr>flagWorldDimensions := ''7:3;0:10''\<rparr>) None
     = Inl (FatalWorldX 7 3)"
proof (intro conjI)
  show "bootstrap (mainDefaults\<lparr>flagWorldDimensions := ''5:5;0:10''\<rparr>)
     = Inr \<lparr>worldMinX = 5, worldMaxX = 5, worldMinY = 0, worldMaxY = 10, wraparound = True\<rparr>"
    by (simp add: bootstrap_def mainDefaults_def parseWorldDimensions_def library_defs)
  show "seedLife \<lparr>worldMinX = 5, worldMaxX = 5, worldMinY = 0, worldMaxY = 10, wraparound = True\<rparr>
         ''(5,1)''
     = Inr (addOrganism
              \<lparr>worldMinX = 5, worldMaxX = 5, worldMinY = 0, worldMaxY = 10, wraparound = True\<rparr>
              Map.empty 5 1)"
    by (simp add: seedLife_def scanner_defs seedRecord_def library_defs)
  show "bootstrap (mainDefaults\<lparr>flagWorldDimensions := ''7:3;0:10''\<rparr>)
     = Inr \<lparr>worldMinX = 7, worldMaxX = 3, worldMinY = 0, worldMaxY = 10, wraparound = True\<rparr>"
    by (simp add: bootstrap_def mainDefaults_def parseWorldDimensions_def library_defs)
  show "appSetup (appFlagDefaults\<lparr>flagWorldDimensions := ''5:5;0:10''\<rparr>) None
     = Inl (FatalWorldX 5 5)"
    by (simp add: appSetup_def processConfigurationFile_def appBootstrap_def
          processConfigurationCli_def appFlagDefaults_def appInit_def
          parseWorldDimensions_def library_defs)
  show "appSetup (appFlagDefaults\<lparr>flagWorldDimensions := ''7:3;0:10''\<rparr>) None
     = Inl (FatalWorldX 7 3)"
    by (simp add: appSetup_def processConfigurationFile_def appBootstrap_def
          processConfigurationCli_def appFlagDefaults_def appInit_def
          parseWorldDimensions_def library_defs)
qed

text \<open>
  Claim C8. An empty line makes \<^verbatim>\<open>seedLife\<close> index the line out of range, and a
  record without a comma makes it index the slice of fields out of range: both end
  in a run-time panic, not in a call of \<^verbatim>\<open>log.Fatal\<close>. A missing parenthesis and a
  field that is no integer do end in \<^verbatim>\<open>log.Fatal\<close>.
\<close>

theorem seed_record_panics:
  "seedRecord w organisms [] = Inl (PanicIndexOutOfRange 0 0)
   \<and> seedRecord w organisms ''(5)'' = Inl (PanicIndexOutOfRange 1 1)
   \<and> seedLife w [CHR 0x0A] = Inl (PanicIndexOutOfRange 0 0)
   \<and> \<not> isFatal (PanicIndexOutOfRange 0 0) \<and> \<not> isFatal (PanicIndexOutOfRange 1 1)
   \<and> seedRecord w organisms ''5,1)'' = Inl (FatalLeftParen (CHR ''5''))
   \<and> seedRecord w organisms ''(5,1'' = Inl (FatalRightParen (CHR ''1''))
   \<and> seedRecord w organisms ''(a,1)'' = Inl (FatalParseX ''a'')
   \<and> seedRecord w organisms ''(5,b)'' = Inl (FatalParseY ''b'')"
  by (simp add: seedRecord_def seedLife_def scanner_defs library_defs)

end
